theory Spec2Isabelle
  imports Complex_Main
begin

section \<open>The plan generator of StuddyBuddy (lib/generatePlan)\<close>

text \<open>
  The development embeds \<^verbatim>\<open>generatePlanForUser\<close> and its helpers. Conventions:
  \<^item> a calendar date (the source's zero-padded \<^verbatim>\<open>YYYY-MM-DD\<close> string, or a
    \<^verbatim>\<open>Date\<close> at local midnight) is its day number counted from a fixed Sunday, so
    that string comparison of two dates is \<open>\<le>\<close> on day numbers, \<^verbatim>\<open>addDays\<close> is
    addition and \<^verbatim>\<open>getDay\<close> is the remainder modulo 7;
  \<^item> a JavaScript number holding hours or a difficulty is an exact rational (rounding
    errors of doubles, NaN and infinities are outside the model); numbers produced by
    \<^verbatim>\<open>Math.round\<close> are integers;
  \<^item> the Supabase tables are lists of rows in a \<open>store\<close>; every call to the client
    either succeeds or reports an error, as told by a predicate on the operations;
  \<^item> the wall clock (\<^verbatim>\<open>new Date()\<close>) is passed in: \<open>today\<close> for the start of the
    day and \<open>now\<close> for the timestamp of the summary;
  \<^item> the objects of the array \<^verbatim>\<open>scored\<close> are shared with \<^verbatim>\<open>candidates\<close>: a
    candidate is the position of its object in \<open>scored\<close>, and the mutation of
    \<^verbatim>\<open>a.remainingMinutes\<close> is written back at that position.
\<close>

subsection \<open>Rows and results\<close>

type_synonym date = int
type_synonym timestamp = nat

record availability_row =
  av_user_id :: string
  av_weekday :: int
  av_hours_available :: rat

record assessment_row =
  as_user_id :: string
  as_id :: string
  as_title :: string
  as_course_id :: "string option"
  as_due_date :: date
  as_estimated_hours :: rat
  as_status :: string

record course_row =
  co_user_id :: string
  co_id :: string
  co_title :: string
  co_difficulty :: rat

record plan_item =
  pi_user_id :: string
  pi_plan_date :: date
  pi_title :: string
  pi_minutes :: int
  pi_assessment_id :: string
  pi_done :: bool

record plan_meta_row =
  shortfall_minutes :: int
  updated_at :: timestamp

record store =
  tbl_availability :: "availability_row list"
  tbl_assessments :: "assessment_row list"
  tbl_courses :: "course_row list"
  tbl_plan_items :: "plan_item list"
  tbl_plan_meta :: "string \<rightharpoonup> plan_meta_row"

record GeneratePlanResult =
  planRowsCount :: nat
  shortfallMinutes :: int
  message :: "string option"
  warning :: "string option"

text \<open>An element of \<^verbatim>\<open>scored\<close>: the assessment row spread into an object with four
  more fields, of which \<open>remainingMinutes\<close> is mutated by the allocation.\<close>

record scored_row =
  sc_row :: assessment_row
  difficulty :: rat
  daysLeft :: int
  score :: rat
  remainingMinutes :: int

datatype db_op =
  SelectAvailability | SelectAssessments | SelectCourses
  | DeletePlanItems | InsertPlanItems | UpsertPlanMeta

datatype error = StorageFailure db_op

subsection \<open>Helpers\<close>

definition addDays :: "date \<Rightarrow> int \<Rightarrow> date" where
  "addDays base n = base + n"

definition getDay :: "date \<Rightarrow> int" where
  "getDay d = d mod 7"

text \<open>\<^verbatim>\<open>Math.round\<close>: the nearest integer, halves towards plus infinity.\<close>

definition js_round :: "rat \<Rightarrow> int" where
  "js_round x = \<lfloor>x + 1 / 2\<rfloor>"

text \<open>The remainder operator of JavaScript takes the sign of the dividend.\<close>

definition js_rem :: "int \<Rightarrow> int \<Rightarrow> int" where
  "js_rem a b = sgn a * (\<bar>a\<bar> mod \<bar>b\<bar>)"

definition digit :: "nat \<Rightarrow> char" where
  "digit n = ''0123456789'' ! n"

function show_nat :: "nat \<Rightarrow> string" where
  "show_nat n = (if n < 10 then [digit n] else show_nat (n div 10) @ [digit (n mod 10)])"
  by pat_completeness auto
termination
  by (relation "measure (\<lambda>n. n)") auto

declare show_nat.simps [simp del]

definition String :: "int \<Rightarrow> string" where
  "String i = (if i < 0 then CHR ''-'' # show_nat (nat (- i)) else show_nat (nat i))"

definition minutesToShortfall :: "int \<Rightarrow> string" where
  "minutesToShortfall mins =
     (let h = mins div 60; m = js_rem mins 60 in
      if h \<le> 0 then String m @ '' minutes''
      else if m = 0 then String h @ '' hours''
      else String h @ ''h '' @ String m @ ''m'')"

definition clamp :: "int \<Rightarrow> int \<Rightarrow> int \<Rightarrow> int" where
  "clamp n lo hi = max lo (min hi n)"

definition CHUNK_MINUTES :: int where
  "CHUNK_MINUTES = 30"

definition MAX_CHUNK_MINUTES :: int where
  "MAX_CHUNK_MINUTES = 60"

text \<open>The em dash between course and assessment title, as its three UTF-8 bytes.\<close>

definition em_dash :: string where
  "em_dash = [CHR 0xE2, CHR 0x80, CHR 0x94]"

subsection \<open>The window and its capacities\<close>

definition days :: "date \<Rightarrow> date list" where
  "days today = map (\<lambda>i. addDays today (int i)) [0..<7]"

definition dayDates :: "date \<Rightarrow> date list" where
  "dayDates today = days today"

text \<open>The map is filled with 2 hours for the weekdays 0 to 6, then overwritten row by
  row; a lookup that finds nothing falls back to 2 once more.\<close>

definition hoursByWeekday :: "availability_row list \<Rightarrow> (int \<rightharpoonup> rat)" where
  "hoursByWeekday rows =
     fold (\<lambda>r m. m(av_weekday r \<mapsto> av_hours_available r)) rows
       (fold (\<lambda>wd m. m(wd \<mapsto> 2)) [0, 1, 2, 3, 4, 5, 6] Map.empty)"

definition hoursAvailable :: "availability_row list \<Rightarrow> int \<Rightarrow> rat" where
  "hoursAvailable rows wd =
     (case hoursByWeekday rows wd of None \<Rightarrow> 2 | Some h \<Rightarrow> h)"

definition capacityByDayMinutes :: "availability_row list \<Rightarrow> date \<Rightarrow> int list" where
  "capacityByDayMinutes rows today =
     map (\<lambda>d. let wd = getDay d; hours = hoursAvailable rows wd
              in js_round (hours * 60)) (days today)"

definition totalCapacity :: "availability_row list \<Rightarrow> date \<Rightarrow> int" where
  "totalCapacity rows today = sum_list (capacityByDayMinutes rows today)"

subsection \<open>Reading the tables\<close>

text \<open>The three selects, named after the locals that receive their rows.\<close>

definition availRows :: "string \<Rightarrow> store \<Rightarrow> availability_row list" where
  "availRows userId db = filter (\<lambda>r. av_user_id r = userId) (tbl_availability db)"

definition assessmentRows :: "string \<Rightarrow> store \<Rightarrow> assessment_row list" where
  "assessmentRows userId db =
     filter (\<lambda>r. as_user_id r = userId \<and> as_status r \<noteq> ''done'') (tbl_assessments db)"

definition courseRows :: "string \<Rightarrow> store \<Rightarrow> course_row list" where
  "courseRows userId db = filter (\<lambda>r. co_user_id r = userId) (tbl_courses db)"

text \<open>The assessments due within the window (the local \<^verbatim>\<open>assessments\<close>).\<close>

definition assessments :: "string \<Rightarrow> date \<Rightarrow> store \<Rightarrow> assessment_row list" where
  "assessments userId today db =
     (let lastDayStr = dayDates today ! (length (dayDates today) - 1) in
      filter (\<lambda>a. as_due_date a \<ge> dayDates today ! 0 \<and> as_due_date a \<le> lastDayStr)
        (assessmentRows userId db))"

definition courseTitleById :: "course_row list \<Rightarrow> (string \<rightharpoonup> string)" where
  "courseTitleById rows = fold (\<lambda>c m. m(co_id c \<mapsto> co_title c)) rows Map.empty"

definition difficultyByCourseId :: "course_row list \<Rightarrow> (string \<rightharpoonup> rat)" where
  "difficultyByCourseId rows =
     fold (\<lambda>c m. m(co_id c \<mapsto> co_difficulty c)) rows Map.empty"

subsection \<open>Scoring\<close>

definition scoreAssessment :: "(string \<rightharpoonup> rat) \<Rightarrow> date \<Rightarrow> assessment_row \<Rightarrow> scored_row" where
  "scoreAssessment diffMap today a =
     (let due = as_due_date a;
          dl = max 0 (due - today);
          diff = (case as_course_id a of
                    None \<Rightarrow> 3
                  | Some c \<Rightarrow> if c = [] then 3
                              else (case diffMap c of None \<Rightarrow> 3 | Some d \<Rightarrow> d));
          sc = (diff + 1) / (of_int dl + 1);
          rm = max 0 (js_round (as_estimated_hours a * 60))
      in \<lparr>sc_row = a, difficulty = diff, daysLeft = dl, score = sc, remainingMinutes = rm\<rparr>)"

definition scored :: "course_row list \<Rightarrow> date \<Rightarrow> assessment_row list \<Rightarrow> scored_row list" where
  "scored rows today as = map (scoreAssessment (difficultyByCourseId rows) today) as"

subsection \<open>Allocation\<close>

definition planRow ::
  "string \<Rightarrow> (string \<rightharpoonup> string) \<Rightarrow> date \<Rightarrow> scored_row \<Rightarrow> int \<Rightarrow> plan_item" where
  "planRow userId titles currentDate a mins =
     (let courseName = (case as_course_id (sc_row a) of
                          None \<Rightarrow> None
                        | Some c \<Rightarrow> if c = [] then None else titles c)
      in \<lparr>pi_user_id = userId,
          pi_plan_date = currentDate,
          pi_title = (case courseName of
                        None \<Rightarrow> as_title (sc_row a)
                      | Some n \<Rightarrow> if n = [] then as_title (sc_row a)
                                  else n @ '' '' @ em_dash @ '' '' @ as_title (sc_row a)),
          pi_minutes = mins,
          pi_assessment_id = as_id (sc_row a),
          pi_done = False\<rparr>)"

text \<open>The \<^verbatim>\<open>while\<close> loop on one candidate: state is the candidate object, the rows
  pushed so far and the remaining capacity of the day.\<close>

function alloc_chunks ::
  "string \<Rightarrow> (string \<rightharpoonup> string) \<Rightarrow> date \<Rightarrow> scored_row \<times> plan_item list \<times> int
     \<Rightarrow> scored_row \<times> plan_item list \<times> int" where
  "alloc_chunks userId titles currentDate (a, planRows, remainingCapacity) =
     (if remainingMinutes a > 0 \<and> remainingCapacity > 0 then
        (let chunk = clamp CHUNK_MINUTES 15 MAX_CHUNK_MINUTES;
             mins = min chunk (min (remainingMinutes a) remainingCapacity)
         in if mins \<le> 0 then (a, planRows, remainingCapacity)
            else alloc_chunks userId titles currentDate
                   (a\<lparr>remainingMinutes := remainingMinutes a - mins\<rparr>,
                    planRows @ [planRow userId titles currentDate a mins],
                    remainingCapacity - mins))
      else (a, planRows, remainingCapacity))"
  by pat_completeness auto
termination
  by (relation "measure (\<lambda>(userId, titles, currentDate, a, planRows, cap).
        nat (remainingMinutes a))") (auto simp: Let_def)

declare alloc_chunks.simps [simp del]

text \<open>The \<^verbatim>\<open>for ... of candidates\<close> loop with its \<^verbatim>\<open>break\<close>.\<close>

fun alloc_candidates ::
  "string \<Rightarrow> (string \<rightharpoonup> string) \<Rightarrow> date \<Rightarrow> nat list \<Rightarrow> scored_row list \<times> plan_item list \<times> int
     \<Rightarrow> scored_row list \<times> plan_item list \<times> int" where
  "alloc_candidates userId titles currentDate [] st = st"
| "alloc_candidates userId titles currentDate (i # cs) (sc, planRows, remainingCapacity) =
     (if remainingCapacity \<le> 0 then (sc, planRows, remainingCapacity)
      else (case alloc_chunks userId titles currentDate (sc ! i, planRows, remainingCapacity) of
              (a', planRows', cap') \<Rightarrow>
                alloc_candidates userId titles currentDate cs (sc[i := a'], planRows', cap')))"

text \<open>Filter, then the stable sort by descending score.\<close>

definition candidates :: "scored_row list \<Rightarrow> date \<Rightarrow> nat list" where
  "candidates sc currentDate =
     sort_key (\<lambda>i. - score (sc ! i))
       (filter (\<lambda>i. remainingMinutes (sc ! i) > 0 \<and> currentDate \<le> as_due_date (sc_row (sc ! i)))
          [0..<length sc])"

text \<open>One iteration of the loop over \<^verbatim>\<open>dayIndex\<close>.\<close>

definition alloc_day ::
  "string \<Rightarrow> (string \<rightharpoonup> string) \<Rightarrow> int list \<Rightarrow> date list \<Rightarrow> nat
     \<Rightarrow> scored_row list \<times> plan_item list \<Rightarrow> scored_row list \<times> plan_item list" where
  "alloc_day userId titles caps dates dayIndex st =
     (case st of (sc, planRows) \<Rightarrow>
        (let remainingCapacity = caps ! dayIndex in
         if remainingCapacity \<le> 0 then (sc, planRows)
         else (let currentDate = dates ! dayIndex in
               case alloc_candidates userId titles currentDate (candidates sc currentDate)
                      (sc, planRows, remainingCapacity) of
                 (sc', planRows', cap') \<Rightarrow> (sc', planRows'))))"

definition allocate ::
  "string \<Rightarrow> (string \<rightharpoonup> string) \<Rightarrow> int list \<Rightarrow> date list \<Rightarrow> scored_row list
     \<Rightarrow> scored_row list \<times> plan_item list" where
  "allocate userId titles caps dates sc =
     fold (alloc_day userId titles caps dates) [0..<7] (sc, [])"

subsection \<open>Shortfall\<close>

definition remainingWork :: "scored_row list \<Rightarrow> int" where
  "remainingWork sc = sum_list (map remainingMinutes sc)"

definition shortfallOf :: "scored_row list \<Rightarrow> int" where
  "shortfallOf sc = (if remainingWork sc > 0 then remainingWork sc else 0)"

subsection \<open>Writing the tables\<close>

definition delete_plan_items :: "string \<Rightarrow> date list \<Rightarrow> store \<Rightarrow> store" where
  "delete_plan_items userId dates db =
     db\<lparr>tbl_plan_items :=
          filter (\<lambda>r. \<not> (pi_user_id r = userId \<and> pi_plan_date r \<in> set dates))
            (tbl_plan_items db)\<rparr>"

definition insert_plan_items :: "plan_item list \<Rightarrow> store \<Rightarrow> store" where
  "insert_plan_items planRows db = db\<lparr>tbl_plan_items := tbl_plan_items db @ planRows\<rparr>"

definition upsert_plan_meta :: "string \<Rightarrow> int \<Rightarrow> timestamp \<Rightarrow> store \<Rightarrow> store" where
  "upsert_plan_meta userId shortfall now db =
     db\<lparr>tbl_plan_meta :=
          (tbl_plan_meta db)(userId \<mapsto> \<lparr>shortfall_minutes = shortfall, updated_at = now\<rparr>)\<rparr>"

subsection \<open>The generator\<close>

text \<open>The locals \<^verbatim>\<open>scored\<close> (after the loops) and \<^verbatim>\<open>planRows\<close> of a run that gets as
  far as the allocation, as a function of the tables.\<close>

definition allocation :: "string \<Rightarrow> date \<Rightarrow> store \<Rightarrow> scored_row list \<times> plan_item list" where
  "allocation userId today db =
     allocate userId (courseTitleById (courseRows userId db))
       (capacityByDayMinutes (availRows userId db) today) (dayDates today)
       (scored (courseRows userId db) today (assessments userId today db))"

text \<open>A run returns the result or the error thrown, and the store it leaves behind.
  On the two early exits the outcome of the upsert is not looked at.\<close>

definition generatePlanForUser ::
  "(db_op \<Rightarrow> bool) \<Rightarrow> string \<Rightarrow> date \<Rightarrow> timestamp \<Rightarrow> store
     \<Rightarrow> (error + GeneratePlanResult) \<times> store" where
  "generatePlanForUser fails userId today now db =
     (if fails SelectAvailability then (Inl (StorageFailure SelectAvailability), db)
      else if fails SelectAssessments then (Inl (StorageFailure SelectAssessments), db)
      else if length (assessments userId today db) = 0 then
        (Inr \<lparr>planRowsCount = 0, shortfallMinutes = 0,
              message = Some ''No assessments due in the next 7 days.'', warning = None\<rparr>,
         if fails UpsertPlanMeta then db else upsert_plan_meta userId 0 now db)
      else if fails SelectCourses then (Inl (StorageFailure SelectCourses), db)
      else if fails DeletePlanItems then (Inl (StorageFailure DeletePlanItems), db)
      else
        (let db1 = delete_plan_items userId (dayDates today) db;
             planRows = snd (allocation userId today db);
             shortfall = shortfallOf (fst (allocation userId today db))
         in if length planRows = 0 then
              (Inr \<lparr>planRowsCount = 0, shortfallMinutes = shortfall,
                    message = Some ''No time available in the next 7 days to schedule tasks.'',
                    warning = Some (''Overload shortfall: ''
                       @ minutesToShortfall (if shortfall = 0 then 0 else shortfall) @ ''.'')\<rparr>,
               if fails UpsertPlanMeta then db1 else upsert_plan_meta userId shortfall now db1)
            else if fails InsertPlanItems then (Inl (StorageFailure InsertPlanItems), db1)
            else
              (let db2 = insert_plan_items planRows db1 in
               if fails UpsertPlanMeta then (Inl (StorageFailure UpsertPlanMeta), db2)
               else
                 (Inr \<lparr>planRowsCount = length planRows, shortfallMinutes = shortfall,
                       message = Some (''Generated '' @ String (int (length planRows))
                          @ '' blocks across the next 7 days.''),
                       warning =
                         (if shortfall > 0 then
                            Some (''Overload: you'' @ [CHR 0x27] @ ''re short by ''
                              @ minutesToShortfall shortfall @ '' within the next 7 days. ''
                              @ ''Increase availability or reduce estimated hours.'')
                          else if length planRows > 0
                                  \<and> totalCapacity (availRows userId db) today = 0
                          then Some ''Overload: availability is 0 for all 7 days.''
                          else None)\<rparr>,
                  upsert_plan_meta userId shortfall now db2))))"

subsection \<open>Notions used to state the properties\<close>

definition blocksFor :: "string \<Rightarrow> plan_item list \<Rightarrow> plan_item list" where
  "blocksFor aid planRows = filter (\<lambda>r. pi_assessment_id r = aid) planRows"

definition blocksOn :: "date \<Rightarrow> plan_item list \<Rightarrow> plan_item list" where
  "blocksOn d planRows = filter (\<lambda>r. pi_plan_date r = d) planRows"

definition minutesOf :: "plan_item list \<Rightarrow> int" where
  "minutesOf planRows = sum_list (map pi_minutes planRows)"

text \<open>What one run of the \<^verbatim>\<open>while\<close> loop hands out: nothing unless both work and
  capacity remain, else the smaller of the two.\<close>

definition taken :: "int \<Rightarrow> int \<Rightarrow> int" where
  "taken r cap = (if r > 0 \<and> cap > 0 then min r cap else 0)"

text \<open>The rows pushed for \<open>t\<close> minutes: full chunks, then the fragment.\<close>

definition chunk_rows ::
  "string \<Rightarrow> (string \<rightharpoonup> string) \<Rightarrow> date \<Rightarrow> scored_row \<Rightarrow> int \<Rightarrow> plan_item list" where
  "chunk_rows userId titles d a t =
     replicate (nat (t div 30)) (planRow userId titles d a 30)
     @ (if t mod 30 = 0 then [] else [planRow userId titles d a (t mod 30)])"

text \<open>The loop over the candidates in closed form: each candidate in turn takes what
  it can; the rows pushed are returned apart from those that were there before.\<close>

fun greedy ::
  "string \<Rightarrow> (string \<rightharpoonup> string) \<Rightarrow> date \<Rightarrow> nat list \<Rightarrow> scored_row list \<Rightarrow> int
     \<Rightarrow> scored_row list \<times> plan_item list \<times> int" where
  "greedy userId titles d [] sc cap = (sc, [], cap)"
| "greedy userId titles d (i # cs) sc cap =
     (let t = taken (remainingMinutes (sc ! i)) cap;
          g = greedy userId titles d cs
                (sc[i := (sc ! i)\<lparr>remainingMinutes := remainingMinutes (sc ! i) - t\<rparr>]) (cap - t)
      in (fst g, chunk_rows userId titles d (sc ! i) t @ fst (snd g), snd (snd g)))"

definition idOf :: "scored_row \<Rightarrow> string" where
  "idOf a = as_id (sc_row a)"

definition day_run ::
  "string \<Rightarrow> (string \<rightharpoonup> string) \<Rightarrow> int list \<Rightarrow> date list \<Rightarrow> nat \<Rightarrow> scored_row list
     \<Rightarrow> scored_row list \<times> plan_item list \<times> int" where
  "day_run userId titles caps dates dayIndex sc =
     greedy userId titles (dates ! dayIndex) (candidates sc (dates ! dayIndex)) sc
       (caps ! dayIndex)"

text \<open>The state of the loop over \<^verbatim>\<open>dayIndex\<close> after its first \<open>n\<close> iterations.\<close>

definition allocate_upto ::
  "string \<Rightarrow> (string \<rightharpoonup> string) \<Rightarrow> int list \<Rightarrow> date list \<Rightarrow> scored_row list \<Rightarrow> nat
     \<Rightarrow> scored_row list \<times> plan_item list" where
  "allocate_upto userId titles caps dates sc n =
     fold (alloc_day userId titles caps dates) [0..<n] (sc, [])"

text \<open>The score as the formula gives it from the two fields it is computed from.\<close>

definition formulaScore :: "scored_row \<Rightarrow> rat" where
  "formulaScore a = (difficulty a + 1) / (of_int (daysLeft a) + 1)"

text \<open>The array \<^verbatim>\<open>scored\<close> of a run when iteration \<open>n\<close> of the loop over the days starts.\<close>

definition scoredAt :: "string \<Rightarrow> date \<Rightarrow> store \<Rightarrow> nat \<Rightarrow> scored_row list" where
  "scoredAt userId today db n =
     fst (allocate_upto userId (courseTitleById (courseRows userId db))
            (capacityByDayMinutes (availRows userId db) today) (dayDates today)
            (scored (courseRows userId db) today (assessments userId today db)) n)"

text \<open>The sorted candidates of iteration \<open>n\<close>.\<close>

definition candidatesOfDay :: "string \<Rightarrow> date \<Rightarrow> store \<Rightarrow> nat \<Rightarrow> nat list" where
  "candidatesOfDay userId today db n =
     candidates (scoredAt userId today db n) (dayDates today ! n)"

text \<open>The rows of the plan dated on day \<open>n\<close> of the window.\<close>

definition rowsOfDay :: "string \<Rightarrow> date \<Rightarrow> store \<Rightarrow> nat \<Rightarrow> plan_item list" where
  "rowsOfDay userId today db n = blocksOn (dayDates today ! n) (snd (allocation userId today db))"

text \<open>The minutes taken off the remaining work of object \<open>k\<close> during iteration \<open>n\<close>.\<close>

definition gotOnDay :: "string \<Rightarrow> date \<Rightarrow> store \<Rightarrow> nat \<Rightarrow> nat \<Rightarrow> int" where
  "gotOnDay userId today db n k =
     remainingMinutes (scoredAt userId today db n ! k)
       - remainingMinutes (scoredAt userId today db (Suc n) ! k)"

text \<open>A block of the user dated within the window.\<close>

definition inWindow :: "string \<Rightarrow> date \<Rightarrow> plan_item \<Rightarrow> bool" where
  "inWindow userId today r = (pi_user_id r = userId \<and> pi_plan_date r \<in> set (dayDates today))"

text \<open>The stored blocks of a user that are dated within the window.\<close>

definition windowBlocks :: "string \<Rightarrow> date \<Rightarrow> store \<Rightarrow> plan_item list" where
  "windowBlocks userId today db =
     filter (\<lambda>r. pi_user_id r = userId \<and> pi_plan_date r \<in> set (dayDates today))
       (tbl_plan_items db)"

subsection \<open>Sample data\<close>

definition ex_assessment :: "string \<Rightarrow> date \<Rightarrow> rat \<Rightarrow> assessment_row" where
  "ex_assessment i due est =
     \<lparr>as_user_id = ''u'', as_id = i, as_title = ''Essay'', as_course_id = None,
      as_due_date = due, as_estimated_hours = est, as_status = ''todo''\<rparr>"

definition ex_store ::
  "availability_row list \<Rightarrow> assessment_row list \<Rightarrow> plan_item list \<Rightarrow> store" where
  "ex_store av as items =
     \<lparr>tbl_availability = av, tbl_assessments = as, tbl_courses = [],
      tbl_plan_items = items, tbl_plan_meta = Map.empty\<rparr>"

text \<open>No call to the store fails.\<close>

definition no_faults :: "db_op \<Rightarrow> bool" where
  "no_faults op = False"

definition ex_block :: plan_item where
  "ex_block = \<lparr>pi_user_id = ''u'', pi_plan_date = 0, pi_title = ''Old'', pi_minutes = 30,
                pi_assessment_id = ''z'', pi_done = False\<rparr>"

definition ex_avail :: "int \<Rightarrow> rat \<Rightarrow> availability_row" where
  "ex_avail wd h = \<lparr>av_user_id = ''u'', av_weekday = wd, av_hours_available = h\<rparr>"

definition ex_availability :: "rat \<Rightarrow> availability_row list" where
  "ex_availability h = map (\<lambda>wd. ex_avail wd h) [0, 1, 2, 3, 4, 5, 6]"

definition ex_two :: "rat \<Rightarrow> store" where
  "ex_two h = ex_store (ex_availability h) [ex_assessment ''a'' 1 1, ex_assessment ''b'' 0 1] []"

definition ex_result :: "nat \<Rightarrow> int \<Rightarrow> string \<Rightarrow> string option \<Rightarrow> GeneratePlanResult" where
  "ex_result n s m w = \<lparr>planRowsCount = n, shortfallMinutes = s, message = Some m, warning = w\<rparr>"

section \<open>The chunk loop in closed form\<close>

lemma chunk_const [simp]: "clamp CHUNK_MINUTES 15 MAX_CHUNK_MINUTES = 30"
  by (simp add: clamp_def CHUNK_MINUTES_def MAX_CHUNK_MINUTES_def)

lemma planRow_rem [simp]:
  "planRow u ts d (a\<lparr>remainingMinutes := x\<rparr>) m = planRow u ts d a m"
  by (simp add: planRow_def split: option.splits)

lemma chunk_rows_rem [simp]:
  "chunk_rows u ts d (a\<lparr>remainingMinutes := x\<rparr>) t = chunk_rows u ts d a t"
  by (simp add: chunk_rows_def)

lemma chunk_rows_0 [simp]: "chunk_rows u ts d a 0 = []"
  by (simp add: chunk_rows_def)

lemma chunk_rows_small:
  "0 < t \<Longrightarrow> t < 30 \<Longrightarrow> chunk_rows u ts d a t = [planRow u ts d a t]"
  by (simp add: chunk_rows_def)

lemma m30: "((t::int) - 30) mod 30 = t mod 30"
  using mod_add_self2[of "t - 30" 30] by simp

lemma d30: "((t::int) - 30) div 30 = t div 30 - 1"
  using div_add_self2[of 30 "t - 30"] by simp

lemma chunk_rows_step:
  assumes t: "30 \<le> t"
  shows "chunk_rows u ts d a t = planRow u ts d a 30 # chunk_rows u ts d a (t - 30)"
proof -
  have "1 \<le> t div 30" using t by simp
  then have "nat (t div 30) = Suc (nat (t div 30 - 1))"
    by simp
  then show ?thesis
    by (simp add: chunk_rows_def m30 d30)
qed

lemma alloc_chunks_stop:
  "\<not> (remainingMinutes a > 0 \<and> cap > 0) \<Longrightarrow>
     alloc_chunks u ts d (a, rows, cap) = (a, rows, cap)"
  by (subst alloc_chunks.simps) (simp only: if_False)

lemma alloc_chunks_step:
  assumes "remainingMinutes a > 0" "cap > 0"
  shows "alloc_chunks u ts d (a, rows, cap) =
         alloc_chunks u ts d
           (a\<lparr>remainingMinutes := remainingMinutes a - min 30 (min (remainingMinutes a) cap)\<rparr>,
            rows @ [planRow u ts d a (min 30 (min (remainingMinutes a) cap))],
            cap - min 30 (min (remainingMinutes a) cap))"
  apply (subst alloc_chunks.simps)
  using assms
  apply (simp only: chunk_const Let_def)
  apply (simp only: simp_thms if_True)
  apply (subgoal_tac "\<not> min 30 (min (remainingMinutes a) cap) \<le> 0")
   apply (simp only: if_False)
  apply simp
  done

lemma taken_full:
  "0 < r \<Longrightarrow> 0 < cap \<Longrightarrow> 30 \<le> r \<Longrightarrow> 30 \<le> cap \<Longrightarrow>
     taken r cap = 30 + taken (r - 30) (cap - 30) \<and> 30 \<le> taken r cap
     \<and> min 30 (min r cap) = 30"
  by (simp add: taken_def min_def)

lemma taken_frag:
  "0 < r \<Longrightarrow> 0 < cap \<Longrightarrow> \<not> (30 \<le> r \<and> 30 \<le> cap) \<Longrightarrow>
     taken r cap = min r cap \<and> taken (r - min r cap) (cap - min r cap) = 0
     \<and> min 30 (min r cap) = min r cap \<and> 0 < min r cap \<and> min r cap < 30"
  by (simp add: taken_def min_def)

text \<open>The loop terminates (it is a total function) and hands out exactly
  \<open>taken\<close> minutes, as full chunks followed by at most one fragment.\<close>

lemma alloc_chunks_closed:
  "alloc_chunks u ts d (a, rows, cap) =
     (a\<lparr>remainingMinutes := remainingMinutes a - taken (remainingMinutes a) cap\<rparr>,
      rows @ chunk_rows u ts d a (taken (remainingMinutes a) cap),
      cap - taken (remainingMinutes a) cap)"
proof (induction "nat (remainingMinutes a)" arbitrary: a rows cap rule: less_induct)
  case less
  let ?r = "remainingMinutes a"
  show ?case
  proof (cases "?r > 0 \<and> cap > 0")
    case False
    then have "taken ?r cap = 0" by (auto simp: taken_def)
    then show ?thesis using alloc_chunks_stop[OF False] by simp
  next
    case True
    then have r: "0 < ?r" and c: "0 < cap" by simp_all
    define m where "m = min 30 (min ?r cap)"
    have mpos: "0 < m" using True by (simp add: m_def)
    define a' where "a' = a\<lparr>remainingMinutes := ?r - m\<rparr>"
    have ra': "remainingMinutes a' = ?r - m" by (simp add: a'_def)
    have step: "alloc_chunks u ts d (a, rows, cap) =
        alloc_chunks u ts d (a', rows @ [planRow u ts d a m], cap - m)"
      unfolding m_def a'_def by (rule alloc_chunks_step[OF r c])
    have "nat (remainingMinutes a') < nat ?r" using mpos r ra' by simp
    from less[OF this, of "rows @ [planRow u ts d a m]" "cap - m"]
    have IH: "alloc_chunks u ts d (a', rows @ [planRow u ts d a m], cap - m) =
       (a\<lparr>remainingMinutes := ?r - m - taken (?r - m) (cap - m)\<rparr>,
        rows @ planRow u ts d a m # chunk_rows u ts d a (taken (?r - m) (cap - m)),
        cap - m - taken (?r - m) (cap - m))"
      by (simp add: a'_def)
    show ?thesis
    proof (cases "30 \<le> ?r \<and> 30 \<le> cap")
      case True
      then have t: "taken ?r cap = 30 + taken (?r - 30) (cap - 30)" "30 \<le> taken ?r cap" "m = 30"
        using taken_full[OF r c] by (simp_all add: m_def)
      show ?thesis unfolding step IH using t
        by (simp add: chunk_rows_step)
    next
      case False
      then have t: "taken ?r cap = m" "taken (?r - m) (cap - m) = 0" "m < 30"
        using taken_frag[OF r c False] by (simp_all add: m_def)
      show ?thesis unfolding step IH using t mpos
        by (simp add: chunk_rows_small)
    qed
  qed
qed

section \<open>The loop over the candidates\<close>

lemma taken_nonneg: "0 \<le> taken r cap"
  by (simp add: taken_def)

lemma taken_le_cap: "0 \<le> cap \<Longrightarrow> taken r cap \<le> cap"
  by (simp add: taken_def)

lemma taken_le_rem: "0 \<le> r \<Longrightarrow> taken r cap \<le> r"
  by (simp add: taken_def)

lemma taken_idle [simp]: "cap \<le> 0 \<Longrightarrow> taken r cap = 0"
  by (simp add: taken_def)

lemma taken_done [simp]: "r \<le> 0 \<Longrightarrow> taken r cap = 0"
  by (simp add: taken_def)

lemma taken_exhausts: "0 < r \<Longrightarrow> 0 < cap \<Longrightarrow> r - taken r cap = 0 \<or> cap - taken r cap = 0"
  by (simp add: taken_def min_def)

lemma greedy_idle: "cap \<le> 0 \<Longrightarrow> greedy u ts d cs sc cap = (sc, [], cap)"
  by (induction cs arbitrary: sc) (simp_all add: Let_def)

lemma alloc_candidates_greedy:
  "alloc_candidates u ts d cs (sc, rows, cap) =
     (fst (greedy u ts d cs sc cap), rows @ fst (snd (greedy u ts d cs sc cap)),
      snd (snd (greedy u ts d cs sc cap)))"
proof (induction cs arbitrary: sc rows cap)
  case Nil
  show ?case by simp
next
  case (Cons i cs)
  show ?case
  proof (cases "cap \<le> 0")
    case True
    then show ?thesis by (simp add: greedy_idle)
  next
    case False
    then show ?thesis
      by (simp add: alloc_chunks_closed Cons.IH Let_def)
  qed
qed

lemma nth_upd: "xs[i := x] ! k = (if i = k \<and> i < length xs then x else xs ! k)"
  by (cases "i < length xs") (simp_all add: nth_list_update list_update_beyond)

lemma length_greedy [simp]: "length (fst (greedy u ts d cs sc cap)) = length sc"
  by (induction cs arbitrary: sc cap) (simp_all add: Let_def)

lemma greedy_untouched:
  "k \<notin> set cs \<Longrightarrow> fst (greedy u ts d cs sc cap) ! k = sc ! k"
  by (induction cs arbitrary: sc cap) (auto simp: Let_def)

lemma greedy_frame:
  "k < length sc \<Longrightarrow>
     sc_row (fst (greedy u ts d cs sc cap) ! k) = sc_row (sc ! k)
     \<and> score (fst (greedy u ts d cs sc cap) ! k) = score (sc ! k)"
proof (induction cs arbitrary: sc cap)
  case Nil
  show ?case by simp
next
  case (Cons i cs)
  let ?t = "taken (remainingMinutes (sc ! i)) cap"
  let ?sc1 = "sc[i := (sc ! i)\<lparr>remainingMinutes := remainingMinutes (sc ! i) - ?t\<rparr>]"
  have "k < length ?sc1" using Cons.prems by simp
  from Cons.IH[OF this, of "cap - ?t"]
  show ?case using Cons.prems by (simp add: Let_def nth_upd)
qed

lemma planRow_sel [simp]:
  "pi_user_id (planRow u ts d a m) = u"
  "pi_plan_date (planRow u ts d a m) = d"
  "pi_minutes (planRow u ts d a m) = m"
  "pi_assessment_id (planRow u ts d a m) = idOf a"
  "pi_done (planRow u ts d a m) = False"
  by (simp_all add: planRow_def idOf_def)

lemma planRow_cong_row:
  "sc_row a = sc_row b \<Longrightarrow> planRow u ts d a m = planRow u ts d b m"
  by (simp add: planRow_def split: option.splits)

lemma chunk_rows_cong_row:
  "sc_row a = sc_row b \<Longrightarrow> chunk_rows u ts d a t = chunk_rows u ts d b t"
  by (simp add: chunk_rows_def planRow_cong_row[of a b])

lemma set_chunk_rows:
  assumes "r \<in> set (chunk_rows u ts d a t)"
  shows "\<exists>m. 0 < m \<and> m \<le> 30 \<and> r = planRow u ts d a m"
proof -
  have "0 \<le> t mod 30" "t mod 30 < 30" by simp_all
  then show ?thesis using assms
    by (auto simp: chunk_rows_def split: if_splits intro: exI[of _ 30] exI[of _ "t mod 30"])
qed

lemma minutesOf_append [simp]: "minutesOf (xs @ ys) = minutesOf xs + minutesOf ys"
  by (simp add: minutesOf_def)

lemma minutesOf_Nil [simp]: "minutesOf [] = 0"
  by (simp add: minutesOf_def)

lemma blocksFor_append [simp]: "blocksFor x (xs @ ys) = blocksFor x xs @ blocksFor x ys"
  by (simp add: blocksFor_def)

lemma blocksOn_append [simp]: "blocksOn x (xs @ ys) = blocksOn x xs @ blocksOn x ys"
  by (simp add: blocksOn_def)

lemma blocksFor_Nil [simp]: "blocksFor x [] = []"
  by (simp add: blocksFor_def)

lemma blocksOn_Nil [simp]: "blocksOn x [] = []"
  by (simp add: blocksOn_def)

lemma sum_list_replicate_int: "sum_list (replicate n (c::int)) = int n * c"
  by (induction n) (simp_all add: algebra_simps)

lemma minutesOf_chunk_rows: "0 \<le> t \<Longrightarrow> minutesOf (chunk_rows u ts d a t) = t"
proof -
  assume t: "0 \<le> t"
  then have p: "0 \<le> t div 30" by (simp add: pos_imp_zdiv_nonneg_iff)
  then have a: "int (nat (t div 30)) = t div 30" by simp
  show ?thesis
  proof (cases "t mod 30 = 0")
    case True
    then have "t div 30 * 30 = t" using div_mult_mod_eq[of t 30] by simp
    then show ?thesis using True p
      by (simp add: minutesOf_def chunk_rows_def sum_list_replicate_int a)
  next
    case False
    have "t div 30 * 30 + t mod 30 = t" by (rule div_mult_mod_eq)
    then show ?thesis using False p
      by (simp add: minutesOf_def chunk_rows_def sum_list_replicate_int a)
  qed
qed

lemma blocksFor_chunk_rows:
  "blocksFor x (chunk_rows u ts d a t) = (if x = idOf a then chunk_rows u ts d a t else [])"
  by (auto simp: blocksFor_def chunk_rows_def)

lemma blocksOn_chunk_rows:
  "blocksOn x (chunk_rows u ts d a t) = (if x = d then chunk_rows u ts d a t else [])"
  by (auto simp: blocksOn_def chunk_rows_def)

lemma greedy_cap:
  "snd (snd (greedy u ts d cs sc cap)) = cap - minutesOf (fst (snd (greedy u ts d cs sc cap)))"
  by (induction cs arbitrary: sc cap) (simp_all add: Let_def minutesOf_chunk_rows taken_nonneg)

lemma greedy_cap_nonneg:
  "0 \<le> cap \<Longrightarrow> 0 \<le> snd (snd (greedy u ts d cs sc cap))"
proof (induction cs arbitrary: sc cap)
  case Nil
  then show ?case by simp
next
  case (Cons i cs)
  have "0 \<le> cap - taken (remainingMinutes (sc ! i)) cap"
    using taken_le_cap[OF Cons.prems] by simp
  from Cons.IH[OF this] show ?case by (simp add: Let_def)
qed

lemma idOf_upd [simp]: "idOf (a\<lparr>remainingMinutes := x\<rparr>) = idOf a"
  by (simp add: idOf_def)

lemma map_idOf_upd [simp]:
  "map idOf (sc[i := (sc ! i)\<lparr>remainingMinutes := x\<rparr>]) = map idOf sc"
  by (simp add: list_eq_iff_nth_eq nth_upd)

lemma idOf_nth_upd [simp]:
  "idOf (sc[i := (sc ! i)\<lparr>remainingMinutes := x\<rparr>] ! k) = idOf (sc ! k)"
  by (simp add: nth_upd)

lemma sc_row_nth_upd [simp]:
  "sc_row (sc[i := (sc ! i)\<lparr>remainingMinutes := x\<rparr>] ! k) = sc_row (sc ! k)"
  by (simp add: nth_upd)

lemma planRow_nth_upd [simp]:
  "planRow u ts d (sc[i := (sc ! i)\<lparr>remainingMinutes := x\<rparr>] ! k) m = planRow u ts d (sc ! k) m"
  by (rule planRow_cong_row) simp

lemma chunk_rows_nth_upd [simp]:
  "chunk_rows u ts d (sc[i := (sc ! i)\<lparr>remainingMinutes := x\<rparr>] ! k) t = chunk_rows u ts d (sc ! k) t"
  by (rule chunk_rows_cong_row) simp

lemma distinct_ids_eq:
  "distinct (map idOf sc) \<Longrightarrow> i < length sc \<Longrightarrow> k < length sc \<Longrightarrow>
     (idOf (sc ! k) = idOf (sc ! i)) = (k = i)"
  using nth_eq_iff_index_eq[of "map idOf sc" k i] by simp

lemma greedy_rows:
  "r \<in> set (fst (snd (greedy u ts d cs sc cap))) \<Longrightarrow>
     \<exists>i \<in> set cs. \<exists>m. 0 < m \<and> m \<le> 30 \<and> r = planRow u ts d (sc ! i) m"
proof (induction cs arbitrary: sc cap)
  case Nil
  then show ?case by simp
next
  case (Cons i cs)
  let ?t = "taken (remainingMinutes (sc ! i)) cap"
  let ?sc1 = "sc[i := (sc ! i)\<lparr>remainingMinutes := remainingMinutes (sc ! i) - ?t\<rparr>]"
  from Cons.prems
  consider (hd) "r \<in> set (chunk_rows u ts d (sc ! i) ?t)"
    | (tl) "r \<in> set (fst (snd (greedy u ts d cs ?sc1 (cap - ?t))))"
    by (auto simp: Let_def)
  then show ?case
  proof cases
    case hd
    from set_chunk_rows[OF this] show ?thesis by auto
  next
    case tl
    from Cons.IH[OF this] show ?thesis by auto
  qed
qed

lemma greedy_no_rows:
  assumes "distinct (map idOf sc)" "\<forall>i \<in> set cs. i < length sc" "k < length sc" "k \<notin> set cs"
  shows "blocksFor (idOf (sc ! k)) (fst (snd (greedy u ts d cs sc cap))) = []"
proof -
  have "pi_assessment_id r \<noteq> idOf (sc ! k)"
    if "r \<in> set (fst (snd (greedy u ts d cs sc cap)))" for r
  proof -
    from greedy_rows[OF that] obtain i m where i: "i \<in> set cs" and r: "r = planRow u ts d (sc ! i) m"
      by blast
    from i assms have "i < length sc" "k \<noteq> i" by auto
    with distinct_ids_eq[OF assms(1) this(1) assms(3)] r show ?thesis by simp
  qed
  then show ?thesis by (auto simp: blocksFor_def filter_empty_conv)
qed

lemma greedy_conserve:
  assumes "distinct (map idOf sc)" "\<forall>i \<in> set cs. i < length sc" "k < length sc"
  shows "remainingMinutes (fst (greedy u ts d cs sc cap) ! k)
           + minutesOf (blocksFor (idOf (sc ! k)) (fst (snd (greedy u ts d cs sc cap))))
         = remainingMinutes (sc ! k)"
  using assms
proof (induction cs arbitrary: sc cap)
  case Nil
  show ?case by simp
next
  case (Cons i cs)
  let ?t = "taken (remainingMinutes (sc ! i)) cap"
  let ?sc1 = "sc[i := (sc ! i)\<lparr>remainingMinutes := remainingMinutes (sc ! i) - ?t\<rparr>]"
  have i: "i < length sc" using Cons.prems by simp
  have IH: "remainingMinutes (fst (greedy u ts d cs ?sc1 (cap - ?t)) ! k)
           + minutesOf (blocksFor (idOf (sc ! k)) (fst (snd (greedy u ts d cs ?sc1 (cap - ?t)))))
         = remainingMinutes (?sc1 ! k)"
    using Cons.IH[of ?sc1 "cap - ?t"] Cons.prems by simp
  have hd: "minutesOf (blocksFor (idOf (sc ! k)) (chunk_rows u ts d (sc ! i) ?t)) = (if k = i then ?t else 0)"
    using distinct_ids_eq[OF Cons.prems(1) i Cons.prems(3)]
    by (simp add: blocksFor_chunk_rows minutesOf_chunk_rows taken_nonneg)
  have "remainingMinutes (?sc1 ! k) = remainingMinutes (sc ! k) - (if k = i then ?t else 0)"
    using i by (simp add: nth_upd)
  with IH hd show ?case by (simp add: Let_def)
qed

lemma greedy_gran:
  assumes "distinct (map idOf sc)" "\<forall>i \<in> set cs. i < length sc" "k < length sc" "distinct cs"
  shows "\<exists>t. 0 \<le> t \<and> blocksFor (idOf (sc ! k)) (fst (snd (greedy u ts d cs sc cap)))
           = chunk_rows u ts d (sc ! k) t"
  using assms
proof (induction cs arbitrary: sc cap)
  case Nil
  show ?case by (rule exI[of _ 0]) simp
next
  case (Cons i cs)
  let ?t = "taken (remainingMinutes (sc ! i)) cap"
  let ?sc1 = "sc[i := (sc ! i)\<lparr>remainingMinutes := remainingMinutes (sc ! i) - ?t\<rparr>]"
  have i: "i < length sc" using Cons.prems by simp
  have eq: "(idOf (sc ! k) = idOf (sc ! i)) = (k = i)"
    by (rule distinct_ids_eq[OF Cons.prems(1) i Cons.prems(3)])
  show ?case
  proof (cases "k = i")
    case True
    have "blocksFor (idOf (?sc1 ! k)) (fst (snd (greedy u ts d cs ?sc1 (cap - ?t)))) = []"
      using Cons.prems True by (intro greedy_no_rows) simp_all
    then show ?thesis using True
      by (intro exI[of _ ?t]) (simp add: Let_def blocksFor_chunk_rows taken_nonneg)
  next
    case False
    have "\<exists>t. 0 \<le> t \<and> blocksFor (idOf (?sc1 ! k)) (fst (snd (greedy u ts d cs ?sc1 (cap - ?t))))
           = chunk_rows u ts d (?sc1 ! k) t"
      using Cons.prems by (intro Cons.IH) simp_all
    then show ?thesis using False eq
      by (simp add: Let_def blocksFor_chunk_rows)
  qed
qed

lemma greedy_Cons_fst:
  "fst (greedy u ts d (i # cs) sc cap) =
     fst (greedy u ts d cs
       (sc[i := (sc ! i)\<lparr>remainingMinutes := remainingMinutes (sc ! i) - taken (remainingMinutes (sc ! i)) cap\<rparr>])
       (cap - taken (remainingMinutes (sc ! i)) cap))"
  by (simp add: Let_def)

lemma greedy_Cons_new:
  "fst (snd (greedy u ts d (i # cs) sc cap)) =
     chunk_rows u ts d (sc ! i) (taken (remainingMinutes (sc ! i)) cap)
     @ fst (snd (greedy u ts d cs
       (sc[i := (sc ! i)\<lparr>remainingMinutes := remainingMinutes (sc ! i) - taken (remainingMinutes (sc ! i)) cap\<rparr>])
       (cap - taken (remainingMinutes (sc ! i)) cap)))"
  by (simp add: Let_def)

text \<open>A candidate behind another in the list is served only once the one in front has
  no work left.\<close>

lemma greedy_served_first:
  fixes key :: "nat \<Rightarrow> rat"
  assumes "sorted (map key cs)" "distinct cs" "i \<in> set cs" "j \<in> set cs" "key i < key j"
    and "\<forall>c \<in> set cs. c < length sc" "0 < remainingMinutes (sc ! i)"
    and "fst (greedy u ts d cs sc cap) ! j \<noteq> sc ! j"
  shows "remainingMinutes (fst (greedy u ts d cs sc cap) ! i) = 0"
  using assms
proof (induction cs arbitrary: sc cap)
  case Nil
  then show ?case by simp
next
  case (Cons c cs)
  let ?t = "taken (remainingMinutes (sc ! c)) cap"
  let ?sc1 = "sc[c := (sc ! c)\<lparr>remainingMinutes := remainingMinutes (sc ! c) - ?t\<rparr>]"
  have c: "c < length sc" "c \<notin> set cs" using Cons.prems by simp_all
  have cj: "c \<noteq> j"
  proof
    assume "c = j"
    with Cons.prems have "i \<in> set cs" by auto
    with Cons.prems(1) \<open>c = j\<close> have "key j \<le> key i" by simp
    with Cons.prems(5) show False by simp
  qed
  then have j: "j \<in> set cs" using Cons.prems by simp
  have j1: "?sc1 ! j = sc ! j" using cj by (simp add: nth_upd)
  show ?case
  proof (cases "c = i")
    case True
    show ?thesis
    proof (cases "0 < cap")
      case False
      then have "greedy u ts d (c # cs) sc cap = (sc, [], cap)" by (simp add: greedy_idle)
      with Cons.prems(8) show ?thesis by simp
    next
      case cap: True
      from taken_exhausts[OF Cons.prems(7) cap] True
      consider "remainingMinutes (sc ! c) - ?t = 0" | "cap - ?t = 0" by auto
      then show ?thesis
      proof cases
        case 1
        have "fst (greedy u ts d cs ?sc1 (cap - ?t)) ! c = ?sc1 ! c"
          by (rule greedy_untouched[OF c(2)])
        then show ?thesis using 1 c True by (simp add: greedy_Cons_fst nth_upd Let_def)
      next
        case 2
        then have "greedy u ts d cs ?sc1 (cap - ?t) = (?sc1, [], cap - ?t)"
          by (simp add: greedy_idle)
        with Cons.prems(8) j1 show ?thesis by (simp add: greedy_Cons_fst Let_def)
      qed
    qed
  next
    case False
    then have i: "i \<in> set cs" using Cons.prems by simp
    have i1: "?sc1 ! i = sc ! i" using False by (simp add: nth_upd)
    have "remainingMinutes (fst (greedy u ts d cs ?sc1 (cap - ?t)) ! i) = 0"
    proof (rule Cons.IH)
      show "sorted (map key cs)" using Cons.prems(1) by simp
      show "distinct cs" using Cons.prems(2) by simp
      show "i \<in> set cs" by (rule i)
      show "j \<in> set cs" by (rule j)
      show "key i < key j" by (rule Cons.prems(5))
      show "\<forall>c \<in> set cs. c < length ?sc1" using Cons.prems(6) by simp
      show "0 < remainingMinutes (?sc1 ! i)" using Cons.prems(7) i1 by simp
      show "fst (greedy u ts d cs ?sc1 (cap - ?t)) ! j \<noteq> ?sc1 ! j"
        using Cons.prems(8) j1 by (simp add: greedy_Cons_fst Let_def)
    qed
    then show ?thesis by (simp add: greedy_Cons_fst Let_def)
  qed
qed

text \<open>When the capacity does not exceed the work of a candidate, nobody behind it in
  the list is served.\<close>

lemma greedy_starved:
  fixes key :: "nat \<Rightarrow> rat"
  assumes "sorted (map key cs)" "distinct cs" "i \<in> set cs" "j \<in> set cs" "key i < key j"
    and "\<forall>c \<in> set cs. c < length sc" "cap \<le> remainingMinutes (sc ! i)"
  shows "fst (greedy u ts d cs sc cap) ! j = sc ! j"
  using assms
proof (induction cs arbitrary: sc cap)
  case Nil
  then show ?case by simp
next
  case (Cons c cs)
  let ?t = "taken (remainingMinutes (sc ! c)) cap"
  let ?sc1 = "sc[c := (sc ! c)\<lparr>remainingMinutes := remainingMinutes (sc ! c) - ?t\<rparr>]"
  have c: "c < length sc" "c \<notin> set cs" using Cons.prems by simp_all
  have cj: "c \<noteq> j"
  proof
    assume "c = j"
    with Cons.prems have "i \<in> set cs" by auto
    with Cons.prems(1) \<open>c = j\<close> have "key j \<le> key i" by simp
    with Cons.prems(5) show False by simp
  qed
  then have j: "j \<in> set cs" using Cons.prems by simp
  have j1: "?sc1 ! j = sc ! j" using cj by (simp add: nth_upd)
  show ?case
  proof (cases "c = i")
    case True
    have "cap - ?t \<le> 0" using Cons.prems(7) True by (auto simp: taken_def)
    then have "greedy u ts d cs ?sc1 (cap - ?t) = (?sc1, [], cap - ?t)"
      by (rule greedy_idle)
    then show ?thesis using j1 by (simp add: greedy_Cons_fst Let_def)
  next
    case False
    then have i: "i \<in> set cs" using Cons.prems by simp
    have i1: "?sc1 ! i = sc ! i" using False by (simp add: nth_upd)
    have "fst (greedy u ts d cs ?sc1 (cap - ?t)) ! j = ?sc1 ! j"
    proof (rule Cons.IH)
      show "sorted (map key cs)" using Cons.prems(1) by simp
      show "distinct cs" using Cons.prems(2) by simp
      show "i \<in> set cs" by (rule i)
      show "j \<in> set cs" by (rule j)
      show "key i < key j" by (rule Cons.prems(5))
      show "\<forall>c \<in> set cs. c < length ?sc1" using Cons.prems(6) by simp
      show "cap - ?t \<le> remainingMinutes (?sc1 ! i)"
        using Cons.prems(7) i1 taken_nonneg[of "remainingMinutes (sc ! c)" cap] by simp
    qed
    then show ?thesis using j1 by (simp add: greedy_Cons_fst Let_def)
  qed
qed

text \<open>The rows of the candidate in front all come before the rows of the one behind.\<close>

lemma greedy_order:
  fixes key :: "nat \<Rightarrow> rat"
  assumes "sorted (map key cs)" "distinct cs" "i \<in> set cs" "j \<in> set cs" "key i < key j"
    and "\<forall>c \<in> set cs. c < length sc" "distinct (map idOf sc)"
  shows "\<exists>xs ys. fst (snd (greedy u ts d cs sc cap)) = xs @ ys
           \<and> blocksFor (idOf (sc ! j)) xs = [] \<and> blocksFor (idOf (sc ! i)) ys = []"
  using assms
proof (induction cs arbitrary: sc cap)
  case Nil
  then show ?case by simp
next
  case (Cons c cs)
  let ?t = "taken (remainingMinutes (sc ! c)) cap"
  let ?sc1 = "sc[c := (sc ! c)\<lparr>remainingMinutes := remainingMinutes (sc ! c) - ?t\<rparr>]"
  let ?rest = "fst (snd (greedy u ts d cs ?sc1 (cap - ?t)))"
  have c: "c < length sc" "c \<notin> set cs" using Cons.prems by simp_all
  have cj: "c \<noteq> j"
  proof
    assume "c = j"
    with Cons.prems have "i \<in> set cs" by auto
    with Cons.prems(1) \<open>c = j\<close> have "key j \<le> key i" by simp
    with Cons.prems(5) show False by simp
  qed
  then have j: "j \<in> set cs" using Cons.prems by simp
  have jl: "j < length sc" using Cons.prems(6) j by simp
  have hdj: "blocksFor (idOf (sc ! j)) (chunk_rows u ts d (sc ! c) ?t) = []"
    using distinct_ids_eq[OF Cons.prems(7) c(1) jl] cj by (simp add: blocksFor_chunk_rows)
  show ?case
  proof (cases "c = i")
    case True
    have "blocksFor (idOf (?sc1 ! i)) ?rest = []"
      using Cons.prems c True by (intro greedy_no_rows) simp_all
    then have "blocksFor (idOf (sc ! i)) ?rest = []" by simp
    with hdj show ?thesis unfolding greedy_Cons_new by blast
  next
    case False
    then have i: "i \<in> set cs" using Cons.prems by simp
    have "\<exists>xs ys. ?rest = xs @ ys
           \<and> blocksFor (idOf (?sc1 ! j)) xs = [] \<and> blocksFor (idOf (?sc1 ! i)) ys = []"
    proof (rule Cons.IH)
      show "sorted (map key cs)" using Cons.prems(1) by simp
      show "distinct cs" using Cons.prems(2) by simp
      show "i \<in> set cs" by (rule i)
      show "j \<in> set cs" by (rule j)
      show "key i < key j" by (rule Cons.prems(5))
      show "\<forall>c \<in> set cs. c < length ?sc1" using Cons.prems(6) by simp
      show "distinct (map idOf ?sc1)" using Cons.prems(7) by simp
    qed
    then obtain xs ys where r: "?rest = xs @ ys" "blocksFor (idOf (sc ! j)) xs = []"
      "blocksFor (idOf (sc ! i)) ys = []" by auto
    have "fst (snd (greedy u ts d (c # cs) sc cap)) = (chunk_rows u ts d (sc ! c) ?t @ xs) @ ys"
      unfolding greedy_Cons_new r(1) by simp
    moreover have "blocksFor (idOf (sc ! j)) (chunk_rows u ts d (sc ! c) ?t @ xs) = []"
      using hdj r(2) by simp
    ultimately show ?thesis using r(3) by blast
  qed
qed

lemma greedy_mono:
  "remainingMinutes (fst (greedy u ts d cs sc cap) ! k) \<le> remainingMinutes (sc ! k)"
proof (induction cs arbitrary: sc cap)
  case Nil
  show ?case by simp
next
  case (Cons i cs)
  let ?t = "taken (remainingMinutes (sc ! i)) cap"
  let ?sc1 = "sc[i := (sc ! i)\<lparr>remainingMinutes := remainingMinutes (sc ! i) - ?t\<rparr>]"
  have "remainingMinutes (?sc1 ! k) \<le> remainingMinutes (sc ! k)"
    by (cases "i = k") (simp_all add: nth_upd taken_nonneg)
  with Cons.IH[of ?sc1 "cap - ?t"] show ?case by (simp add: greedy_Cons_fst Let_def)
qed

lemma greedy_nonneg:
  "0 \<le> remainingMinutes (sc ! k) \<Longrightarrow> 0 \<le> remainingMinutes (fst (greedy u ts d cs sc cap) ! k)"
proof (induction cs arbitrary: sc cap)
  case Nil
  then show ?case by simp
next
  case (Cons i cs)
  let ?t = "taken (remainingMinutes (sc ! i)) cap"
  let ?sc1 = "sc[i := (sc ! i)\<lparr>remainingMinutes := remainingMinutes (sc ! i) - ?t\<rparr>]"
  have "0 \<le> remainingMinutes (?sc1 ! k)"
    using Cons.prems by (cases "i = k") (simp_all add: nth_upd taken_le_rem)
  from Cons.IH[OF this, of "cap - ?t"] show ?case by (simp add: greedy_Cons_fst Let_def)
qed

section \<open>The loop over the days\<close>

lemma set_candidates:
  "set (candidates sc d) =
     {i. i < length sc \<and> 0 < remainingMinutes (sc ! i) \<and> d \<le> as_due_date (sc_row (sc ! i))}"
  by (auto simp: candidates_def)

lemma distinct_candidates: "distinct (candidates sc d)"
  by (simp add: candidates_def)

lemma sorted_candidates: "sorted (map (\<lambda>i. - score (sc ! i)) (candidates sc d))"
  by (simp add: candidates_def)

lemma candidates_valid: "\<forall>i \<in> set (candidates sc d). i < length sc"
  by (simp add: set_candidates)

lemma alloc_day_greedy:
  "alloc_day u ts caps dates j (sc, rows) =
     (fst (day_run u ts caps dates j sc), rows @ fst (snd (day_run u ts caps dates j sc)))"
  by (cases "caps ! j \<le> 0")
     (simp_all add: alloc_day_def day_run_def alloc_candidates_greedy greedy_idle Let_def)

lemma allocate_upto_0 [simp]: "allocate_upto u ts caps dates sc 0 = (sc, [])"
  by (simp add: allocate_upto_def)

lemma allocate_upto_Suc:
  "allocate_upto u ts caps dates sc (Suc n) =
     (fst (day_run u ts caps dates n (fst (allocate_upto u ts caps dates sc n))),
      snd (allocate_upto u ts caps dates sc n)
        @ fst (snd (day_run u ts caps dates n (fst (allocate_upto u ts caps dates sc n)))))"
proof -
  have "allocate_upto u ts caps dates sc (Suc n) =
      alloc_day u ts caps dates n (allocate_upto u ts caps dates sc n)"
    by (simp add: allocate_upto_def)
  also have "\<dots> = alloc_day u ts caps dates n
      (fst (allocate_upto u ts caps dates sc n), snd (allocate_upto u ts caps dates sc n))"
    by simp
  finally show ?thesis by (simp only: alloc_day_greedy)
qed

lemma allocate_eq: "allocate u ts caps dates sc = allocate_upto u ts caps dates sc 7"
  by (simp add: allocate_def allocate_upto_def)

lemma length_day_run [simp]: "length (fst (day_run u ts caps dates j sc)) = length sc"
  by (simp add: day_run_def)

lemma length_allocate_upto [simp]: "length (fst (allocate_upto u ts caps dates sc n)) = length sc"
  by (induction n) (simp_all add: allocate_upto_Suc)

lemma day_run_frame:
  "k < length sc \<Longrightarrow> sc_row (fst (day_run u ts caps dates j sc) ! k) = sc_row (sc ! k)
     \<and> score (fst (day_run u ts caps dates j sc) ! k) = score (sc ! k)"
  unfolding day_run_def by (rule greedy_frame)

lemma allocate_upto_frame:
  "k < length sc \<Longrightarrow> sc_row (fst (allocate_upto u ts caps dates sc n) ! k) = sc_row (sc ! k)
     \<and> score (fst (allocate_upto u ts caps dates sc n) ! k) = score (sc ! k)"
proof (induction n)
  case 0
  show ?case by simp
next
  case (Suc n)
  then show ?case
    using day_run_frame[of k "fst (allocate_upto u ts caps dates sc n)" u ts caps dates n]
    by (simp add: allocate_upto_Suc)
qed

lemma allocate_upto_ids:
  "map idOf (fst (allocate_upto u ts caps dates sc n)) = map idOf sc"
  by (simp add: list_eq_iff_nth_eq idOf_def allocate_upto_frame)

lemma allocate_upto_mono:
  "remainingMinutes (fst (allocate_upto u ts caps dates sc n) ! k) \<le> remainingMinutes (sc ! k)"
proof (induction n)
  case 0
  show ?case by simp
next
  case (Suc n)
  have "remainingMinutes (fst (allocate_upto u ts caps dates sc (Suc n)) ! k)
      \<le> remainingMinutes (fst (allocate_upto u ts caps dates sc n) ! k)"
    by (simp add: allocate_upto_Suc day_run_def greedy_mono)
  with Suc show ?case by simp
qed

lemma allocate_upto_nonneg:
  "0 \<le> remainingMinutes (sc ! k) \<Longrightarrow>
     0 \<le> remainingMinutes (fst (allocate_upto u ts caps dates sc n) ! k)"
proof (induction n)
  case 0
  then show ?case by simp
next
  case (Suc n)
  then show ?case by (simp add: allocate_upto_Suc day_run_def greedy_nonneg)
qed

text \<open>Where every row of a run comes from.\<close>

lemma day_run_rows:
  assumes "r \<in> set (fst (snd (day_run u ts caps dates j sc)))"
  shows "\<exists>k m. k < length sc \<and> 0 < m \<and> m \<le> 30 \<and> r = planRow u ts (dates ! j) (sc ! k) m
           \<and> 0 < remainingMinutes (sc ! k) \<and> dates ! j \<le> as_due_date (sc_row (sc ! k))
           \<and> 0 < caps ! j"
proof -
  have cap: "0 < caps ! j"
  proof (rule ccontr)
    assume "\<not> 0 < caps ! j"
    then have "day_run u ts caps dates j sc = (sc, [], caps ! j)"
      by (simp add: day_run_def greedy_idle)
    with assms show False by simp
  qed
  from assms obtain i m where "i \<in> set (candidates sc (dates ! j))" "0 < m" "m \<le> 30"
    "r = planRow u ts (dates ! j) (sc ! i) m"
    unfolding day_run_def using greedy_rows by blast
  with cap show ?thesis by (auto simp: set_candidates)
qed

lemma allocate_upto_rows:
  assumes "r \<in> set (snd (allocate_upto u ts caps dates sc n))"
  shows "\<exists>j k m. j < n \<and> k < length sc \<and> 0 < m \<and> m \<le> 30
           \<and> r = planRow u ts (dates ! j) (sc ! k) m
           \<and> 0 < remainingMinutes (sc ! k) \<and> dates ! j \<le> as_due_date (sc_row (sc ! k))
           \<and> 0 < caps ! j"
  using assms
proof (induction n)
  case 0
  then show ?case by simp
next
  case (Suc n)
  let ?S = "fst (allocate_upto u ts caps dates sc n)"
  from Suc.prems consider (old) "r \<in> set (snd (allocate_upto u ts caps dates sc n))"
    | (new) "r \<in> set (fst (snd (day_run u ts caps dates n ?S)))"
    by (auto simp: allocate_upto_Suc)
  then show ?case
  proof cases
    case old
    from Suc.IH[OF this] obtain j k m where "j < n" "k < length sc" "0 < m" "m \<le> 30"
      "r = planRow u ts (dates ! j) (sc ! k) m" "0 < remainingMinutes (sc ! k)"
      "dates ! j \<le> as_due_date (sc_row (sc ! k))" "0 < caps ! j"
      by blast
    then show ?thesis by (intro exI[of _ j] exI[of _ k] exI[of _ m]) simp
  next
    case new
    from day_run_rows[OF new] obtain k m where km: "k < length sc" "0 < m" "m \<le> 30"
      "r = planRow u ts (dates ! n) (?S ! k) m" "0 < remainingMinutes (?S ! k)"
      "dates ! n \<le> as_due_date (sc_row (?S ! k))" "0 < caps ! n"
      by auto
    have fr: "sc_row (?S ! k) = sc_row (sc ! k)"
      using allocate_upto_frame[OF km(1)] by simp
    have "r = planRow u ts (dates ! n) (sc ! k) m"
      using km(4) planRow_cong_row[OF fr] by simp
    moreover have "0 < remainingMinutes (sc ! k)"
      using km(5) allocate_upto_mono[of u ts caps dates sc n k] by simp
    ultimately show ?thesis using km fr by (intro exI[of _ n] exI[of _ k] exI[of _ m]) simp
  qed
qed

lemma allocate_upto_distinct_ids:
  "distinct (map idOf sc) \<Longrightarrow> distinct (map idOf (fst (allocate_upto u ts caps dates sc n)))"
  by (simp add: allocate_upto_ids)

lemma allocate_upto_idOf:
  "k < length sc \<Longrightarrow> idOf (fst (allocate_upto u ts caps dates sc n) ! k) = idOf (sc ! k)"
  by (simp add: idOf_def allocate_upto_frame)

lemma allocate_upto_conserve:
  assumes "distinct (map idOf sc)" "k < length sc"
  shows "remainingMinutes (fst (allocate_upto u ts caps dates sc n) ! k)
           + minutesOf (blocksFor (idOf (sc ! k)) (snd (allocate_upto u ts caps dates sc n)))
         = remainingMinutes (sc ! k)"
proof (induction n)
  case 0
  show ?case by simp
next
  case (Suc n)
  let ?S = "fst (allocate_upto u ts caps dates sc n)"
  have "remainingMinutes (fst (day_run u ts caps dates n ?S) ! k)
           + minutesOf (blocksFor (idOf (?S ! k)) (fst (snd (day_run u ts caps dates n ?S))))
         = remainingMinutes (?S ! k)"
    unfolding day_run_def
    using assms candidates_valid[of ?S "dates ! n"]
    by (intro greedy_conserve) (simp_all add: allocate_upto_ids)
  with Suc show ?case
    using assms(2) by (simp add: allocate_upto_Suc allocate_upto_idOf)
qed

lemma blocksOn_same:
  "\<forall>r \<in> set xs. pi_plan_date r = d \<Longrightarrow> blocksOn d' xs = (if d' = d then xs else [])"
  by (auto simp: blocksOn_def filter_empty_conv filter_id_conv)

lemma day_run_dates:
  "\<forall>r \<in> set (fst (snd (day_run u ts caps dates j sc))). pi_plan_date r = dates ! j"
  using day_run_rows by fastforce

lemma day_run_total:
  "minutesOf (fst (snd (day_run u ts caps dates j sc))) \<le> max 0 (caps ! j)"
proof (cases "0 \<le> caps ! j")
  case True
  from greedy_cap_nonneg[OF this, of u ts "dates ! j" "candidates sc (dates ! j)" sc]
    greedy_cap[of u ts "dates ! j" "candidates sc (dates ! j)" sc "caps ! j"]
  show ?thesis by (simp add: day_run_def)
next
  case False
  then show ?thesis by (simp add: day_run_def greedy_idle)
qed

lemma allocate_upto_fresh:
  assumes "distinct dates" "n \<le> length dates" "j < length dates" "n \<le> j"
  shows "blocksOn (dates ! j) (snd (allocate_upto u ts caps dates sc n)) = []"
proof -
  have "pi_plan_date r \<noteq> dates ! j" if "r \<in> set (snd (allocate_upto u ts caps dates sc n))" for r
  proof -
    from allocate_upto_rows[OF that] obtain j' k m where "j' < n"
      "r = planRow u ts (dates ! j') (sc ! k) m" by blast
    moreover from this assms have "dates ! j' \<noteq> dates ! j"
      by (simp add: nth_eq_iff_index_eq)
    ultimately show ?thesis by simp
  qed
  then show ?thesis by (auto simp: blocksOn_def filter_empty_conv)
qed

lemma allocate_upto_capacity:
  assumes "distinct dates" "n \<le> length dates" "j < length dates"
  shows "minutesOf (blocksOn (dates ! j) (snd (allocate_upto u ts caps dates sc n)))
           \<le> (if j < n then max 0 (caps ! j) else 0)"
  using assms(2)
proof (induction n)
  case 0
  show ?case by simp
next
  case (Suc n)
  let ?S = "fst (allocate_upto u ts caps dates sc n)"
  let ?new = "fst (snd (day_run u ts caps dates n ?S))"
  have n: "n < length dates" "n \<le> length dates" using Suc.prems by simp_all
  have new: "blocksOn (dates ! j) ?new = (if dates ! j = dates ! n then ?new else [])"
    by (rule blocksOn_same[OF day_run_dates])
  have eq: "(dates ! j = dates ! n) = (j = n)"
    using assms n by (simp add: nth_eq_iff_index_eq)
  show ?case
  proof (cases "j = n")
    case True
    have "blocksOn (dates ! j) (snd (allocate_upto u ts caps dates sc n)) = []"
      using True assms n by (intro allocate_upto_fresh) simp_all
    then show ?thesis using True new day_run_total[of u ts caps dates n ?S]
      by (simp add: allocate_upto_Suc)
  next
    case False
    then show ?thesis using Suc.IH[OF n(2)] new eq
      by (auto simp: allocate_upto_Suc)
  qed
qed

lemma blocksOn_blocksFor_same:
  "\<forall>r \<in> set xs. pi_plan_date r = d \<Longrightarrow>
     blocksOn d' (blocksFor x xs) = (if d' = d then blocksFor x xs else [])"
  by (rule blocksOn_same) (simp add: blocksFor_def)

lemma allocate_upto_gran:
  assumes "distinct (map idOf sc)" "k < length sc"
    and "distinct dates" "n \<le> length dates" "j < length dates"
  shows "\<exists>t. 0 \<le> t \<and>
           blocksOn (dates ! j) (blocksFor (idOf (sc ! k)) (snd (allocate_upto u ts caps dates sc n)))
           = chunk_rows u ts (dates ! j) (sc ! k) t"
  using assms(4)
proof (induction n)
  case 0
  show ?case by (rule exI[of _ 0]) (simp add: blocksOn_def)
next
  case (Suc n)
  let ?S = "fst (allocate_upto u ts caps dates sc n)"
  let ?R = "snd (allocate_upto u ts caps dates sc n)"
  let ?new = "fst (snd (day_run u ts caps dates n ?S))"
  have n: "n < length dates" "n \<le> length dates" using Suc.prems by simp_all
  have new: "blocksOn (dates ! j) (blocksFor (idOf (sc ! k)) ?new)
      = (if dates ! j = dates ! n then blocksFor (idOf (sc ! k)) ?new else [])"
    by (rule blocksOn_blocksFor_same[OF day_run_dates])
  have eq: "(dates ! j = dates ! n) = (j = n)"
    using assms n by (simp add: nth_eq_iff_index_eq)
  show ?case
  proof (cases "j = n")
    case True
    have "blocksOn (dates ! j) ?R = []"
      using True assms n by (intro allocate_upto_fresh) simp_all
    then have old: "blocksOn (dates ! j) (blocksFor (idOf (sc ! k)) ?R) = []"
      by (auto simp: blocksOn_def blocksFor_def filter_empty_conv)
    have "\<exists>t. 0 \<le> t \<and> blocksFor (idOf (?S ! k)) ?new = chunk_rows u ts (dates ! n) (?S ! k) t"
      unfolding day_run_def
      using assms candidates_valid[of ?S "dates ! n"]
      by (intro greedy_gran) (simp_all add: allocate_upto_ids distinct_candidates)
    then obtain t where t: "0 \<le> t" "blocksFor (idOf (sc ! k)) ?new = chunk_rows u ts (dates ! n) (?S ! k) t"
      using assms(2) by (auto simp: allocate_upto_idOf)
    have "chunk_rows u ts (dates ! n) (?S ! k) t = chunk_rows u ts (dates ! n) (sc ! k) t"
      using allocate_upto_frame[OF assms(2)] by (intro chunk_rows_cong_row) simp
    with t old new True show ?thesis
      by (intro exI[of _ t]) (simp add: allocate_upto_Suc)
  next
    case False
    then show ?thesis using Suc.IH[OF n(2)] new eq
      by (simp add: allocate_upto_Suc)
  qed
qed

section \<open>The run as a whole\<close>

lemma length_dayDates [simp]: "length (dayDates today) = 7"
  by (simp add: dayDates_def days_def)

lemma nth_dayDates: "j < 7 \<Longrightarrow> dayDates today ! j = today + int j"
  by (simp add: dayDates_def days_def addDays_def del: upt_Suc)

lemma distinct_dayDates: "distinct (dayDates today)"
  by (simp add: dayDates_def days_def addDays_def distinct_map inj_on_def del: upt_Suc)

lemma set_dayDates: "set (dayDates today) = {today .. today + 6}"
proof -
  have "set (dayDates today) = (\<lambda>i. today + int i) ` {0..<7}"
    by (simp add: dayDates_def days_def addDays_def del: upt_Suc)
  also have "\<dots> = {today .. today + 6}"
  proof (rule set_eqI)
    fix x
    show "x \<in> (\<lambda>i. today + int i) ` {0..<7} \<longleftrightarrow> x \<in> {today .. today + 6}"
    proof
      assume "x \<in> (\<lambda>i. today + int i) ` {0..<7}"
      then show "x \<in> {today .. today + 6}" by auto
    next
      assume x: "x \<in> {today .. today + 6}"
      then have "x = today + int (nat (x - today))" "nat (x - today) \<in> {0..<7}" by auto
      then show "x \<in> (\<lambda>i. today + int i) ` {0..<7}" by (rule image_eqI)
    qed
  qed
  finally show ?thesis .
qed

lemma length_capacity [simp]: "length (capacityByDayMinutes rows today) = 7"
  by (simp add: capacityByDayMinutes_def days_def)

lemma nth_capacity:
  "j < 7 \<Longrightarrow> capacityByDayMinutes rows today ! j
     = js_round (hoursAvailable rows (getDay (dayDates today ! j)) * 60)"
  by (simp add: capacityByDayMinutes_def dayDates_def days_def Let_def del: upt_Suc)

lemma length_scored [simp]: "length (scored rows today as) = length as"
  by (simp add: scored_def)

lemma scored_row [simp]: "k < length as \<Longrightarrow> sc_row (scored rows today as ! k) = as ! k"
  by (simp add: scored_def scoreAssessment_def Let_def)

lemma scored_rem:
  "k < length as \<Longrightarrow> remainingMinutes (scored rows today as ! k)
     = max 0 (js_round (as_estimated_hours (as ! k) * 60))"
  by (simp add: scored_def scoreAssessment_def Let_def)

lemma scored_ids [simp]: "map idOf (scored rows today as) = map as_id as"
  by (simp add: list_eq_iff_nth_eq idOf_def)

lemma scored_idOf [simp]: "k < length as \<Longrightarrow> idOf (scored rows today as ! k) = as_id (as ! k)"
  by (simp add: idOf_def)

lemma assessments_window:
  "a \<in> set (assessments u today db) \<Longrightarrow> today \<le> as_due_date a \<and> as_due_date a \<le> today + 6"
  by (simp add: assessments_def nth_dayDates)

lemma allocation_upto:
  "allocation u today db =
     allocate_upto u (courseTitleById (courseRows u db))
       (capacityByDayMinutes (availRows u db) today) (dayDates today)
       (scored (courseRows u db) today (assessments u today db)) 7"
  by (simp add: allocation_def allocate_eq)

lemma length_allocation [simp]:
  "length (fst (allocation u today db)) = length (assessments u today db)"
  by (simp add: allocation_upto)

lemma js_round_nonneg: "0 \<le> x \<Longrightarrow> 0 \<le> js_round x"
  by (simp add: js_round_def)

lemma allocation_nonneg:
  "k < length (assessments u today db) \<Longrightarrow> 0 \<le> remainingMinutes (fst (allocation u today db) ! k)"
  unfolding allocation_upto by (rule allocate_upto_nonneg) (simp add: scored_rem)

lemma shortfallOf_sum:
  assumes "\<forall>k < length sc. 0 \<le> remainingMinutes (sc ! k)"
  shows "shortfallOf sc = (\<Sum>k < length sc. remainingMinutes (sc ! k))"
proof -
  have "\<forall>x \<in> set (map remainingMinutes sc). 0 \<le> x"
    using assms by (auto simp: in_set_conv_nth)
  then have "0 \<le> remainingWork sc"
    unfolding remainingWork_def by (intro sum_list_nonneg) auto
  then have "shortfallOf sc = sum_list (map remainingMinutes sc)"
    by (simp add: shortfallOf_def remainingWork_def)
  also have "\<dots> = (\<Sum>k < length sc. remainingMinutes (sc ! k))"
    by (simp add: sum_list_sum_nth atLeast0LessThan)
  finally show ?thesis .
qed

text \<open>
  Claim C1 (conservation of work). For every assessment of the run with a positive
  estimate, and identifiers being unique, the minutes of the blocks generated for it
  plus the minutes it has left at the end are \<open>round (estimatedHours * 60)\<close>; and
  the shortfall is the sum of what the assessments have left.
\<close>

theorem conservation:
  assumes "distinct (map as_id (assessments u today db))"
    and "k < length (assessments u today db)"
    and "0 < as_estimated_hours (assessments u today db ! k)"
  shows "minutesOf (blocksFor (as_id (assessments u today db ! k)) (snd (allocation u today db)))
           + remainingMinutes (fst (allocation u today db) ! k)
         = js_round (as_estimated_hours (assessments u today db ! k) * 60)
       \<and> shortfallOf (fst (allocation u today db))
         = (\<Sum>i < length (assessments u today db). remainingMinutes (fst (allocation u today db) ! i))"
proof
  let ?as = "assessments u today db"
  let ?sc = "scored (courseRows u db) today ?as"
  have "0 \<le> js_round (as_estimated_hours (?as ! k) * 60)"
    using assms(3) by (intro js_round_nonneg) simp
  then have r0: "remainingMinutes (?sc ! k) = js_round (as_estimated_hours (?as ! k) * 60)"
    using assms(2) by (simp add: scored_rem)
  have "remainingMinutes (fst (allocation u today db) ! k)
          + minutesOf (blocksFor (idOf (?sc ! k)) (snd (allocation u today db)))
        = remainingMinutes (?sc ! k)"
    unfolding allocation_upto using assms by (intro allocate_upto_conserve) simp_all
  with r0 assms(2) show "minutesOf (blocksFor (as_id (?as ! k)) (snd (allocation u today db)))
           + remainingMinutes (fst (allocation u today db) ! k)
         = js_round (as_estimated_hours (?as ! k) * 60)"
    by simp
next
  have "shortfallOf (fst (allocation u today db))
      = (\<Sum>i < length (fst (allocation u today db)). remainingMinutes (fst (allocation u today db) ! i))"
    by (rule shortfallOf_sum) (simp add: allocation_nonneg)
  then show "shortfallOf (fst (allocation u today db))
         = (\<Sum>i < length (assessments u today db). remainingMinutes (fst (allocation u today db) ! i))"
    by simp
qed

lemma ex_assessments_one:
  "assessments ''u'' 0 (ex_store av [ex_assessment ''a'' 3 4] items) = [ex_assessment ''a'' 3 4]"
  by (simp add: assessments_def assessmentRows_def ex_store_def ex_assessment_def nth_dayDates)

theorem conservation_witness:
  "distinct (map as_id (assessments ''u'' 0 (ex_store [] [ex_assessment ''a'' 3 4] [])))
   \<and> 0 < length (assessments ''u'' 0 (ex_store [] [ex_assessment ''a'' 3 4] []))
   \<and> 0 < as_estimated_hours (assessments ''u'' 0 (ex_store [] [ex_assessment ''a'' 3 4] []) ! 0)
   \<and> minutesOf (blocksFor (as_id (assessments ''u'' 0 (ex_store [] [ex_assessment ''a'' 3 4] []) ! 0))
         (snd (allocation ''u'' 0 (ex_store [] [ex_assessment ''a'' 3 4] []))))
       + remainingMinutes (fst (allocation ''u'' 0 (ex_store [] [ex_assessment ''a'' 3 4] [])) ! 0)
     = js_round (as_estimated_hours (assessments ''u'' 0 (ex_store [] [ex_assessment ''a'' 3 4] []) ! 0) * 60)"
proof -
  let ?db = "ex_store [] [ex_assessment ''a'' 3 4] []"
  have h1: "distinct (map as_id (assessments ''u'' 0 ?db))"
    by (simp add: ex_assessments_one)
  have h2: "0 < length (assessments ''u'' 0 ?db)"
    by (simp add: ex_assessments_one)
  have h3: "0 < as_estimated_hours (assessments ''u'' 0 ?db ! 0)"
    unfolding ex_assessments_one by (simp add: ex_assessment_def)
  from conservation[OF h1 h2 h3] h1 h2 h3 show ?thesis by blast
qed

lemma allocation_rows:
  assumes "r \<in> set (snd (allocation u today db))"
  shows "\<exists>j k m. j < 7 \<and> k < length (assessments u today db) \<and> 0 < m \<and> m \<le> 30
           \<and> r = planRow u (courseTitleById (courseRows u db)) (dayDates today ! j)
                   (scored (courseRows u db) today (assessments u today db) ! k) m
           \<and> 0 < remainingMinutes (scored (courseRows u db) today (assessments u today db) ! k)
           \<and> dayDates today ! j \<le> as_due_date (assessments u today db ! k)
           \<and> 0 < capacityByDayMinutes (availRows u db) today ! j"
proof -
  from assms[unfolded allocation_upto] allocate_upto_rows
  obtain j k m where *: "j < 7" "k < length (scored (courseRows u db) today (assessments u today db))"
    "0 < m" "m \<le> 30"
    "r = planRow u (courseTitleById (courseRows u db)) (dayDates today ! j)
                   (scored (courseRows u db) today (assessments u today db) ! k) m"
    "0 < remainingMinutes (scored (courseRows u db) today (assessments u today db) ! k)"
    "dayDates today ! j \<le> as_due_date (sc_row (scored (courseRows u db) today (assessments u today db) ! k))"
    "0 < capacityByDayMinutes (availRows u db) today ! j"
    by blast
  then show ?thesis
    by (intro exI[of _ j] exI[of _ k] exI[of _ m]) simp
qed

lemma distinct_ids_index:
  "distinct (map as_id as) \<Longrightarrow> k < length as \<Longrightarrow> k' < length as \<Longrightarrow>
     as_id (as ! k) = as_id (as ! k') \<Longrightarrow> k = k'"
  using nth_eq_iff_index_eq[of "map as_id as" k k'] by simp

lemma distinct_ids_nth:
  assumes "distinct (map as_id as)" "k < length as" "a \<in> set as" "as_id (as ! k) = as_id a"
  shows "as ! k = a"
proof -
  from assms(3) obtain k' where k': "k' < length as" "as ! k' = a"
    by (auto simp: in_set_conv_nth)
  with assms(4) have "as_id (as ! k) = as_id (as ! k')" by simp
  from distinct_ids_index[OF assms(1,2) k'(1) this] k' show ?thesis by simp
qed

text \<open>
  Claim C7 (due-date boundary). With unique identifiers, a block generated for an
  assessment is never dated after the due date of that assessment.
\<close>

theorem due_date_boundary:
  assumes "distinct (map as_id (assessments u today db))"
    and "a \<in> set (assessments u today db)"
    and "r \<in> set (blocksFor (as_id a) (snd (allocation u today db)))"
  shows "pi_plan_date r \<le> as_due_date a"
proof -
  from assms(3) have r: "r \<in> set (snd (allocation u today db))" "pi_assessment_id r = as_id a"
    by (simp_all add: blocksFor_def)
  from allocation_rows[OF r(1)] obtain j k m where *: "k < length (assessments u today db)"
    "r = planRow u (courseTitleById (courseRows u db)) (dayDates today ! j)
                   (scored (courseRows u db) today (assessments u today db) ! k) m"
    "dayDates today ! j \<le> as_due_date (assessments u today db ! k)"
    by blast
  from *(1,2) r(2) have "as_id (assessments u today db ! k) = as_id a" by simp
  from distinct_ids_nth[OF assms(1) *(1) assms(2) this] *(2,3) show ?thesis by simp
qed

theorem due_date_boundary_witness:
  "pi_plan_date (hd (blocksFor ''a''
      (snd (allocation ''u'' 0 (ex_store [] [ex_assessment ''a'' 3 4] [])))))
     \<le> as_due_date (ex_assessment ''a'' 3 4)"
proof -
  let ?db = "ex_store [] [ex_assessment ''a'' 3 4] []"
  have h1: "distinct (map as_id (assessments ''u'' 0 ?db))"
    by (simp add: ex_assessments_one)
  have h2: "ex_assessment ''a'' 3 4 \<in> set (assessments ''u'' 0 ?db)"
    by (simp add: ex_assessments_one)
  have "blocksFor ''a'' (snd (allocation ''u'' 0 ?db)) \<noteq> []"
    by code_simp
  then have "hd (blocksFor ''a'' (snd (allocation ''u'' 0 ?db)))
      \<in> set (blocksFor ''a'' (snd (allocation ''u'' 0 ?db)))"
    by (rule hd_in_set)
  moreover have "as_id (ex_assessment ''a'' 3 4) = ''a''"
    by (simp add: ex_assessment_def)
  ultimately have h3: "hd (blocksFor ''a'' (snd (allocation ''u'' 0 ?db)))
      \<in> set (blocksFor (as_id (ex_assessment ''a'' 3 4)) (snd (allocation ''u'' 0 ?db)))"
    by simp
  from due_date_boundary[OF h1 h2 h3] show ?thesis .
qed

text \<open>
  Claim C10 (estimate that rounds to nothing). An assessment whose estimate rounds to
  zero minutes or less starts with zero remaining minutes, is never a candidate, gets
  no block (identifiers being unique) and ends with zero remaining minutes, which is
  what it adds to the shortfall.
\<close>

theorem zero_estimate:
  assumes "distinct (map as_id (assessments u today db))"
    and "k < length (assessments u today db)"
    and "js_round (as_estimated_hours (assessments u today db ! k) * 60) \<le> 0"
  shows "remainingMinutes (scored (courseRows u db) today (assessments u today db) ! k) = 0
       \<and> (\<forall>n d. k \<notin> set (candidates
             (fst (allocate_upto u (courseTitleById (courseRows u db))
                (capacityByDayMinutes (availRows u db) today) (dayDates today)
                (scored (courseRows u db) today (assessments u today db)) n)) d))
       \<and> blocksFor (as_id (assessments u today db ! k)) (snd (allocation u today db)) = []
       \<and> remainingMinutes (fst (allocation u today db) ! k) = 0"
proof -
  let ?as = "assessments u today db"
  let ?sc = "scored (courseRows u db) today ?as"
  let ?S = "\<lambda>n. fst (allocate_upto u (courseTitleById (courseRows u db))
                (capacityByDayMinutes (availRows u db) today) (dayDates today) ?sc n)"
  have r0: "remainingMinutes (?sc ! k) = 0"
    using assms(2,3) by (simp add: scored_rem)
  have rn: "remainingMinutes (?S n ! k) = 0" for n
    using allocate_upto_mono[of u "courseTitleById (courseRows u db)"
        "capacityByDayMinutes (availRows u db) today" "dayDates today" ?sc n k]
      allocate_upto_nonneg[of ?sc k u "courseTitleById (courseRows u db)"
        "capacityByDayMinutes (availRows u db) today" "dayDates today" n]
      r0 by simp
  have cand: "k \<notin> set (candidates (?S n) d)" for n d
    using rn[of n] by (simp add: set_candidates)
  have "pi_assessment_id r \<noteq> as_id (?as ! k)" if "r \<in> set (snd (allocation u today db))" for r
  proof
    assume eq: "pi_assessment_id r = as_id (?as ! k)"
    from allocation_rows[OF that] obtain j k' m where *: "k' < length ?as"
      "r = planRow u (courseTitleById (courseRows u db)) (dayDates today ! j) (?sc ! k') m"
      "0 < remainingMinutes (?sc ! k')"
      by blast
    from *(1,2) eq have "as_id (?as ! k') = as_id (?as ! k)" by simp
    from distinct_ids_index[OF assms(1) *(1) assms(2) this] have "k' = k" .
    with *(3) r0 show False by simp
  qed
  then have "blocksFor (as_id (?as ! k)) (snd (allocation u today db)) = []"
    by (auto simp: blocksFor_def filter_empty_conv)
  moreover have "remainingMinutes (fst (allocation u today db) ! k) = 0"
    using rn[of 7] by (simp add: allocation_upto)
  ultimately show ?thesis using r0 cand by blast
qed

theorem zero_estimate_witness:
  "remainingMinutes (scored (courseRows ''u'' (ex_store [] [ex_assessment ''a'' 0 (1 / 200)] [])) 0
      (assessments ''u'' 0 (ex_store [] [ex_assessment ''a'' 0 (1 / 200)] [])) ! 0) = 0
   \<and> blocksFor (as_id (assessments ''u'' 0 (ex_store [] [ex_assessment ''a'' 0 (1 / 200)] []) ! 0))
        (snd (allocation ''u'' 0 (ex_store [] [ex_assessment ''a'' 0 (1 / 200)] []))) = []
   \<and> remainingMinutes
        (fst (allocation ''u'' 0 (ex_store [] [ex_assessment ''a'' 0 (1 / 200)] [])) ! 0) = 0"
proof -
  let ?db = "ex_store [] [ex_assessment ''a'' 0 (1 / 200)] []"
  have as: "assessments ''u'' 0 ?db = [ex_assessment ''a'' 0 (1 / 200)]"
    by (simp add: assessments_def assessmentRows_def ex_store_def ex_assessment_def nth_dayDates)
  have h1: "distinct (map as_id (assessments ''u'' 0 ?db))"
    by (simp add: as)
  have h2: "0 < length (assessments ''u'' 0 ?db)"
    by (simp add: as)
  have h3: "js_round (as_estimated_hours (assessments ''u'' 0 ?db ! 0) * 60) \<le> 0"
    unfolding as by (simp add: ex_assessment_def js_round_def floor_divide_eq_div_numeral)
  from zero_estimate[OF h1 h2 h3] show ?thesis by blast
qed

lemma fold_hours_nonneg:
  assumes "\<forall>r \<in> set rows. 0 \<le> av_hours_available r" "\<forall>wd h. m wd = Some h \<longrightarrow> 0 \<le> h"
  shows "\<forall>wd h. fold (\<lambda>r m. m(av_weekday r \<mapsto> av_hours_available r)) rows m wd = Some h \<longrightarrow> 0 \<le> h"
  using assms
proof (induction rows arbitrary: m)
  case Nil
  then show ?case by simp
next
  case (Cons r rows)
  have "\<forall>wd h. (m(av_weekday r \<mapsto> av_hours_available r)) wd = Some h \<longrightarrow> 0 \<le> h"
    using Cons.prems by auto
  with Cons.IH[of "m(av_weekday r \<mapsto> av_hours_available r)"] Cons.prems(1)
  show ?case by simp
qed

lemma fold_hours_missing:
  "\<forall>r \<in> set rows. av_weekday r \<noteq> wd \<Longrightarrow>
     fold (\<lambda>r m. m(av_weekday r \<mapsto> av_hours_available r)) rows m wd = m wd"
  by (induction rows arbitrary: m) simp_all

lemma hoursAvailable_nonneg:
  assumes "\<forall>r \<in> set rows. 0 \<le> av_hours_available r"
  shows "0 \<le> hoursAvailable rows wd"
proof -
  define m0 where "m0 = fold (\<lambda>wd m. m(wd \<mapsto> 2)) [0, 1, 2, 3, 4, 5, 6]
           (Map.empty :: int \<rightharpoonup> rat)"
  have "\<forall>wd h. m0 wd = Some h \<longrightarrow> 0 \<le> h"
    by (auto simp: m0_def split: if_splits)
  from fold_hours_nonneg[OF assms this]
  have "\<forall>wd h. hoursByWeekday rows wd = Some h \<longrightarrow> 0 \<le> h"
    unfolding hoursByWeekday_def m0_def .
  then show ?thesis
    by (auto simp: hoursAvailable_def split: option.splits)
qed

lemma hoursAvailable_missing:
  assumes "\<forall>r \<in> set rows. av_weekday r \<noteq> wd"
  shows "hoursAvailable rows wd = 2"
  unfolding hoursAvailable_def hoursByWeekday_def fold_hours_missing[OF assms]
  by (auto split: option.splits)

lemma capacity_nonneg:
  assumes "\<forall>r \<in> set rows. 0 \<le> av_hours_available r" "j < 7"
  shows "0 \<le> capacityByDayMinutes rows today ! j"
  using hoursAvailable_nonneg[OF assms(1)] assms(2)
  by (simp add: nth_capacity js_round_nonneg)

lemma capacity_bound:
  assumes "j < 7"
  shows "minutesOf (blocksOn (dayDates today ! j) (snd (allocation u today db)))
           \<le> max 0 (capacityByDayMinutes (availRows u db) today ! j)"
  using allocate_upto_capacity[of "dayDates today" 7 j u "courseTitleById (courseRows u db)"
      "capacityByDayMinutes (availRows u db) today"
      "scored (courseRows u db) today (assessments u today db)"] assms
  by (simp add: allocation_upto distinct_dayDates)

text \<open>
  Claim C2 (capacity invariant). With availability entries that are not negative, the
  blocks generated for each of the seven dates add up to at most
  \<open>round (hours * 60)\<close> for the weekday of that date, and a weekday with no entry
  counts as 2 hours.
\<close>

theorem capacity_invariant:
  assumes "\<forall>r \<in> set (availRows u db). 0 \<le> av_hours_available r" and "j < 7"
  shows "minutesOf (blocksOn (dayDates today ! j) (snd (allocation u today db)))
           \<le> js_round (hoursAvailable (availRows u db) (getDay (dayDates today ! j)) * 60)
       \<and> ((\<forall>r \<in> set (availRows u db). av_weekday r \<noteq> getDay (dayDates today ! j))
            \<longrightarrow> hoursAvailable (availRows u db) (getDay (dayDates today ! j)) = 2)"
proof
  have "0 \<le> capacityByDayMinutes (availRows u db) today ! j"
    by (rule capacity_nonneg[OF assms])
  with capacity_bound[OF assms(2), of today u db] assms(2)
  show "minutesOf (blocksOn (dayDates today ! j) (snd (allocation u today db)))
           \<le> js_round (hoursAvailable (availRows u db) (getDay (dayDates today ! j)) * 60)"
    by (simp add: nth_capacity)
next
  show "(\<forall>r \<in> set (availRows u db). av_weekday r \<noteq> getDay (dayDates today ! j))
            \<longrightarrow> hoursAvailable (availRows u db) (getDay (dayDates today ! j)) = 2"
    using hoursAvailable_missing by blast
qed

theorem capacity_invariant_witness:
  "minutesOf (blocksOn (dayDates 0 ! 0)
      (snd (allocation ''u'' 0 (ex_store [ex_avail 1 (3 / 4)] [ex_assessment ''a'' 3 4] []))))
     \<le> js_round (hoursAvailable
           (availRows ''u'' (ex_store [ex_avail 1 (3 / 4)] [ex_assessment ''a'' 3 4] []))
           (getDay (dayDates 0 ! 0)) * 60)
   \<and> hoursAvailable (availRows ''u'' (ex_store [ex_avail 1 (3 / 4)] [ex_assessment ''a'' 3 4] []))
        (getDay (dayDates 0 ! 0)) = 2"
proof -
  let ?db = "ex_store [ex_avail 1 (3 / 4)] [ex_assessment ''a'' 3 4] []"
  have h1: "\<forall>r \<in> set (availRows ''u'' ?db). 0 \<le> av_hours_available r"
    by (simp add: availRows_def ex_store_def ex_avail_def)
  have h2: "(0::nat) < 7" by simp
  have h3: "\<forall>r \<in> set (availRows ''u'' ?db). av_weekday r \<noteq> getDay (dayDates 0 ! 0)"
    by (simp add: availRows_def ex_store_def ex_avail_def getDay_def nth_dayDates)
  from capacity_invariant[OF h1 h2, of 0] h3 show ?thesis by blast
qed

lemma minutes_chunk_rows:
  "map pi_minutes (chunk_rows u ts d a t) =
     replicate (nat (t div 30)) 30 @ (if t mod 30 = 0 then [] else [t mod 30])"
  by (simp add: chunk_rows_def)

text \<open>
  Claim C5 as amended (block granularity). Every generated block lasts a positive
  number of minutes, at most 30; and the blocks generated for one assessment on one
  date are 30 minutes each except possibly the last, which is shorter.
\<close>

theorem block_granularity:
  assumes "distinct (map as_id (assessments u today db))"
    and "k < length (assessments u today db)" and "j < 7"
  shows "(\<forall>r \<in> set (snd (allocation u today db)). 0 < pi_minutes r \<and> pi_minutes r \<le> 30)
       \<and> (\<exists>n frag.
             map pi_minutes (blocksOn (dayDates today ! j)
               (blocksFor (as_id (assessments u today db ! k)) (snd (allocation u today db))))
             = replicate n 30 @ frag
             \<and> (frag = [] \<or> (\<exists>m. frag = [m] \<and> 0 < m \<and> m < 30)))"
proof
  show "\<forall>r \<in> set (snd (allocation u today db)). 0 < pi_minutes r \<and> pi_minutes r \<le> 30"
  proof
    fix r assume "r \<in> set (snd (allocation u today db))"
    from allocation_rows[OF this] show "0 < pi_minutes r \<and> pi_minutes r \<le> 30" by auto
  qed
next
  let ?as = "assessments u today db"
  let ?sc = "scored (courseRows u db) today ?as"
  have "\<exists>t. 0 \<le> t \<and>
      blocksOn (dayDates today ! j) (blocksFor (idOf (?sc ! k)) (snd (allocation u today db)))
      = chunk_rows u (courseTitleById (courseRows u db)) (dayDates today ! j) (?sc ! k) t"
    unfolding allocation_upto
    using assms by (intro allocate_upto_gran) (simp_all add: distinct_dayDates)
  then obtain t where t: "0 \<le> t"
    "blocksOn (dayDates today ! j) (blocksFor (as_id (?as ! k)) (snd (allocation u today db)))
      = chunk_rows u (courseTitleById (courseRows u db)) (dayDates today ! j) (?sc ! k) t"
    using assms(2) by auto
  have m: "0 \<le> t mod 30" "t mod 30 < 30" by simp_all
  show "\<exists>n frag.
             map pi_minutes (blocksOn (dayDates today ! j)
               (blocksFor (as_id (?as ! k)) (snd (allocation u today db))))
             = replicate n 30 @ frag
             \<and> (frag = [] \<or> (\<exists>m. frag = [m] \<and> 0 < m \<and> m < 30))"
    unfolding t(2) minutes_chunk_rows
    using m by (intro exI[of _ "nat (t div 30)"] exI[of _ "if t mod 30 = 0 then [] else [t mod 30]"]) auto
qed

theorem block_granularity_witness:
  "0 < pi_minutes (hd (snd (allocation ''u'' 0
        (ex_store (ex_availability (3 / 4)) [ex_assessment ''a'' 6 2] []))))
   \<and> pi_minutes (hd (snd (allocation ''u'' 0
        (ex_store (ex_availability (3 / 4)) [ex_assessment ''a'' 6 2] [])))) \<le> 30
   \<and> (\<exists>n frag.
         map pi_minutes (blocksOn (dayDates 0 ! 0)
           (blocksFor (as_id (assessments ''u'' 0
               (ex_store (ex_availability (3 / 4)) [ex_assessment ''a'' 6 2] []) ! 0))
             (snd (allocation ''u'' 0
               (ex_store (ex_availability (3 / 4)) [ex_assessment ''a'' 6 2] [])))))
         = replicate n 30 @ frag
         \<and> (frag = [] \<or> (\<exists>m. frag = [m] \<and> 0 < m \<and> m < 30)))"
proof -
  let ?db = "ex_store (ex_availability (3 / 4)) [ex_assessment ''a'' 6 2] []"
  have as: "assessments ''u'' 0 ?db = [ex_assessment ''a'' 6 2]"
    by (simp add: assessments_def assessmentRows_def ex_store_def ex_assessment_def nth_dayDates)
  have h1: "distinct (map as_id (assessments ''u'' 0 ?db))"
    by (simp add: as)
  have h2: "0 < length (assessments ''u'' 0 ?db)"
    by (simp add: as)
  have h3: "(0::nat) < 7" by simp
  have "snd (allocation ''u'' 0 ?db) \<noteq> []"
    by code_simp
  then have "hd (snd (allocation ''u'' 0 ?db)) \<in> set (snd (allocation ''u'' 0 ?db))"
    by (rule hd_in_set)
  with block_granularity[OF h1 h2 h3] show ?thesis by blast
qed

text \<open>Against claim C5 as it stands: with 45 minutes a day, a two-hour assessment gets two
  blocks of 15 minutes, on different days.\<close>

theorem two_fragments:
  "map pi_minutes (blocksFor ''a''
     (snd (allocation ''u'' 0 (ex_store (ex_availability (3 / 4)) [ex_assessment ''a'' 6 2] []))))
   = [30, 15, 30, 15, 30]"
  by code_simp

lemma closed_day_empty:
  assumes "j < 7" "capacityByDayMinutes (availRows u db) today ! j \<le> 0"
  shows "blocksOn (dayDates today ! j) (snd (allocation u today db)) = []"
proof -
  have "pi_plan_date r \<noteq> dayDates today ! j" if "r \<in> set (snd (allocation u today db))" for r
  proof
    assume eq: "pi_plan_date r = dayDates today ! j"
    from allocation_rows[OF that] obtain j' k m where *: "j' < 7"
      "r = planRow u (courseTitleById (courseRows u db)) (dayDates today ! j')
             (scored (courseRows u db) today (assessments u today db) ! k) m"
      "0 < capacityByDayMinutes (availRows u db) today ! j'"
      by blast
    from *(2) eq have "dayDates today ! j' = dayDates today ! j" by simp
    with *(1) assms(1) have "j' = j" by (simp add: nth_dayDates)
    with *(3) assms(2) show False by simp
  qed
  then show ?thesis by (auto simp: blocksOn_def filter_empty_conv)
qed

lemma no_capacity_no_rows:
  assumes "\<forall>r \<in> set (availRows u db). 0 \<le> av_hours_available r"
    and "totalCapacity (availRows u db) today = 0"
  shows "snd (allocation u today db) = []"
proof (rule ccontr)
  assume "snd (allocation u today db) \<noteq> []"
  then obtain r where "r \<in> set (snd (allocation u today db))"
    by (cases "snd (allocation u today db)") auto
  from allocation_rows[OF this] obtain j where j: "j < 7"
    "0 < capacityByDayMinutes (availRows u db) today ! j"
    by blast
  have "\<forall>x \<in> set (capacityByDayMinutes (availRows u db) today). 0 \<le> x"
    using capacity_nonneg[OF assms(1)] by (auto simp: in_set_conv_nth)
  then have "\<forall>x \<in> set (capacityByDayMinutes (availRows u db) today). x = 0"
    using assms(2) by (simp add: totalCapacity_def sum_list_nonneg_eq_0_iff)
  moreover have "capacityByDayMinutes (availRows u db) today ! j
      \<in> set (capacityByDayMinutes (availRows u db) today)"
    using j(1) by (intro nth_mem) simp
  ultimately have "capacityByDayMinutes (availRows u db) today ! j = 0"
    by blast
  with j(2) show False by simp
qed

lemma generate_warning_cases:
  assumes "fst (generatePlanForUser fails u today now db) = Inr res"
  shows "warning res = None
       \<or> warning res = Some (''Overload shortfall: '' @ minutesToShortfall
              (shortfallOf (fst (allocation u today db))) @ ''.'')
       \<or> warning res = Some (''Overload: you'' @ [CHR 0x27] @ ''re short by ''
              @ minutesToShortfall (shortfallOf (fst (allocation u today db)))
              @ '' within the next 7 days. ''
              @ ''Increase availability or reduce estimated hours.'')
       \<or> (warning res = Some ''Overload: availability is 0 for all 7 days.''
            \<and> snd (allocation u today db) \<noteq> []
            \<and> totalCapacity (availRows u db) today = 0)"
  using assms
  by (auto simp: generatePlanForUser_def Let_def split: if_splits)

text \<open>
  Claim C9 (zero-capacity safety). With availability entries that are not negative: a
  date whose capacity is zero or less gets no block; when the capacities of the week
  add up to zero no block is generated at all; so no run returns the warning of the
  branch for blocks in spite of a total capacity of zero.
\<close>

theorem zero_capacity_safety:
  assumes "\<forall>r \<in> set (availRows u db). 0 \<le> av_hours_available r"
  shows "(\<forall>j < 7. capacityByDayMinutes (availRows u db) today ! j \<le> 0 \<longrightarrow>
            blocksOn (dayDates today ! j) (snd (allocation u today db)) = [])
       \<and> (totalCapacity (availRows u db) today = 0 \<longrightarrow> snd (allocation u today db) = [])
       \<and> (\<forall>res. fst (generatePlanForUser fails u today now db) = Inr res \<longrightarrow>
            warning res \<noteq> Some ''Overload: availability is 0 for all 7 days.'')"
proof (intro conjI allI impI)
  fix j :: nat
  assume "j < 7" "capacityByDayMinutes (availRows u db) today ! j \<le> 0"
  then show "blocksOn (dayDates today ! j) (snd (allocation u today db)) = []"
    by (rule closed_day_empty)
next
  assume "totalCapacity (availRows u db) today = 0"
  with assms show "snd (allocation u today db) = []"
    by (rule no_capacity_no_rows)
next
  fix res
  assume "fst (generatePlanForUser fails u today now db) = Inr res"
  from generate_warning_cases[OF this] no_capacity_no_rows[OF assms, of today]
  show "warning res \<noteq> Some ''Overload: availability is 0 for all 7 days.''"
    by auto
qed

theorem zero_capacity_safety_witness:
  "blocksOn (dayDates 0 ! 0)
     (snd (allocation ''u'' 0 (ex_store (ex_availability 0) [ex_assessment ''a'' 2 2] []))) = []
   \<and> snd (allocation ''u'' 0 (ex_store (ex_availability 0) [ex_assessment ''a'' 2 2] [])) = []
   \<and> warning (ex_result 0 120 ''No time available in the next 7 days to schedule tasks.''
        (Some ''Overload shortfall: 2 hours.''))
     \<noteq> Some ''Overload: availability is 0 for all 7 days.''"
proof -
  let ?db = "ex_store (ex_availability 0) [ex_assessment ''a'' 2 2] []"
  have h: "\<forall>r \<in> set (availRows ''u'' ?db). 0 \<le> av_hours_available r"
    by (simp add: availRows_def ex_store_def ex_availability_def ex_avail_def)
  have c0: "(0::nat) < 7" "capacityByDayMinutes (availRows ''u'' ?db) 0 ! 0 \<le> 0"
    by code_simp+
  have t: "totalCapacity (availRows ''u'' ?db) 0 = 0"
    by code_simp
  have r: "fst (generatePlanForUser no_faults ''u'' 0 1 ?db)
      = Inr (ex_result 0 120 ''No time available in the next 7 days to schedule tasks.''
          (Some ''Overload shortfall: 2 hours.''))"
    by code_simp
  from zero_capacity_safety[OF h, where today = 0 and fails = no_faults and now = 1] c0 t r show ?thesis by blast
qed

section \<open>The store\<close>

lemma windowBlocks_filter: "windowBlocks u today db = filter (inWindow u today) (tbl_plan_items db)"
  unfolding windowBlocks_def by (rule filter_cong) (simp_all add: inWindow_def)

lemma delete_filter:
  "delete_plan_items u (dayDates today) db =
     db\<lparr>tbl_plan_items := filter (\<lambda>r. \<not> inWindow u today r) (tbl_plan_items db)\<rparr>"
  by (simp add: delete_plan_items_def inWindow_def)

lemma allocation_inWindow:
  assumes "r \<in> set (snd (allocation u today db))"
  shows "inWindow u today r"
proof -
  from allocation_rows[OF assms] obtain j k m where "j < 7"
    "r = planRow u (courseTitleById (courseRows u db)) (dayDates today ! j)
           (scored (courseRows u db) today (assessments u today db) ! k) m"
    by blast
  then show ?thesis by (simp add: inWindow_def)
qed

lemma filter_in_rows: "filter (inWindow u today) (snd (allocation u today db)) = snd (allocation u today db)"
  by (simp add: filter_id_conv allocation_inWindow)

lemma filter_out_rows: "filter (\<lambda>r. \<not> inWindow u today r) (snd (allocation u today db)) = []"
  by (simp add: filter_empty_conv allocation_inWindow)

text \<open>The reads look at three tables only.\<close>

lemma reads_cong:
  assumes "tbl_availability db' = tbl_availability db" "tbl_assessments db' = tbl_assessments db"
    "tbl_courses db' = tbl_courses db"
  shows "availRows u db' = availRows u db" "assessments u today db' = assessments u today db"
    "courseRows u db' = courseRows u db" "allocation u today db' = allocation u today db"
  using assms
  by (simp_all add: availRows_def assessments_def assessmentRows_def courseRows_def allocation_def)

lemma reads_delete [simp]:
  "availRows u (delete_plan_items v ds db) = availRows u db"
  "assessments u today (delete_plan_items v ds db) = assessments u today db"
  "allocation u today (delete_plan_items v ds db) = allocation u today db"
  by (rule reads_cong; simp add: delete_plan_items_def)+

lemma reads_insert [simp]:
  "availRows u (insert_plan_items rows db) = availRows u db"
  "assessments u today (insert_plan_items rows db) = assessments u today db"
  "allocation u today (insert_plan_items rows db) = allocation u today db"
  by (rule reads_cong; simp add: insert_plan_items_def)+

lemma reads_upsert [simp]:
  "availRows u (upsert_plan_meta v s n db) = availRows u db"
  "assessments u today (upsert_plan_meta v s n db) = assessments u today db"
  "allocation u today (upsert_plan_meta v s n db) = allocation u today db"
  by (rule reads_cong; simp add: upsert_plan_meta_def)+

lemma items_upsert [simp]: "tbl_plan_items (upsert_plan_meta v s n db) = tbl_plan_items db"
  by (simp add: upsert_plan_meta_def)

lemma items_insert [simp]: "tbl_plan_items (insert_plan_items rows db) = tbl_plan_items db @ rows"
  by (simp add: insert_plan_items_def)

lemma items_delete [simp]:
  "tbl_plan_items (delete_plan_items u (dayDates today) db)
     = filter (\<lambda>r. \<not> inWindow u today r) (tbl_plan_items db)"
  by (simp add: delete_filter)

text \<open>
  Claim C3 as amended (window replacement). A run that finds at least one assessment
  and returns a result has deleted the blocks of the user that were dated within the
  window: afterwards these are exactly the blocks the run produced, as many as the
  result says, and the other stored blocks are as before.
\<close>

theorem window_replacement:
  assumes "fst (generatePlanForUser fails u today now db) = Inr res"
    and "assessments u today db \<noteq> []"
  shows "windowBlocks u today (snd (generatePlanForUser fails u today now db))
           = snd (allocation u today db)
       \<and> planRowsCount res = length (snd (allocation u today db))
       \<and> filter (\<lambda>r. \<not> inWindow u today r)
             (tbl_plan_items (snd (generatePlanForUser fails u today now db)))
           = filter (\<lambda>r. \<not> inWindow u today r) (tbl_plan_items db)"
  using assms
  by (auto simp: generatePlanForUser_def Let_def windowBlocks_filter filter_in_rows
      filter_out_rows split: if_splits)

theorem window_replacement_witness:
  "windowBlocks ''u'' 0 (snd (generatePlanForUser no_faults ''u'' 0 1
       (ex_store [] [ex_assessment ''a'' 3 4] [ex_block])))
     = snd (allocation ''u'' 0 (ex_store [] [ex_assessment ''a'' 3 4] [ex_block]))
   \<and> planRowsCount (ex_result 8 0 ''Generated 8 blocks across the next 7 days.'' None)
     = length (snd (allocation ''u'' 0 (ex_store [] [ex_assessment ''a'' 3 4] [ex_block])))"
proof -
  let ?db = "ex_store [] [ex_assessment ''a'' 3 4] [ex_block]"
  have h1: "fst (generatePlanForUser no_faults ''u'' 0 1 ?db)
      = Inr (ex_result 8 0 ''Generated 8 blocks across the next 7 days.'' None)"
    by code_simp
  have h2: "assessments ''u'' 0 ?db \<noteq> []"
    by (simp add: ex_assessments_one)
  from window_replacement[OF h1 h2] show ?thesis by blast
qed

text \<open>Against claim C3 as it stands: a run that finds no assessment leaves the stored
  block of the window where it was, though it produces none.\<close>

theorem stale_blocks_survive:
  "fst (generatePlanForUser no_faults ''u'' 0 1 (ex_store [] [] [ex_block]))
     = Inr (ex_result 0 0 ''No assessments due in the next 7 days.'' None)
   \<and> snd (allocation ''u'' 0 (ex_store [] [] [ex_block])) = []
   \<and> windowBlocks ''u'' 0 (snd (generatePlanForUser no_faults ''u'' 0 1 (ex_store [] [] [ex_block])))
     = [ex_block]"
  by code_simp

lemma scored_score:
  "k < length as \<Longrightarrow> score (scored rows today as ! k)
     = (difficulty (scored rows today as ! k) + 1)
       / (of_int (daysLeft (scored rows today as ! k)) + 1)"
  by (simp add: scored_def scoreAssessment_def Let_def)

lemma generate_shortfall:
  assumes "fst (generatePlanForUser fails u today now db) = Inr res"
    and "assessments u today db \<noteq> []"
  shows "shortfallMinutes res = shortfallOf (fst (allocation u today db))"
  using assms by (auto simp: generatePlanForUser_def Let_def split: if_splits)

section \<open>Priority within a day\<close>

text \<open>At the end of the loop over the candidates either the capacity is used up or
  the candidate has no work left.\<close>

lemma greedy_exhausts:
  assumes "i \<in> set cs" "distinct cs" "\<forall>c \<in> set cs. c < length sc"
  shows "remainingMinutes (fst (greedy u ts d cs sc cap) ! i) \<le> 0
       \<or> snd (snd (greedy u ts d cs sc cap)) \<le> 0"
  using assms
proof (induction cs arbitrary: sc cap)
  case Nil
  then show ?case by simp
next
  case (Cons c cs)
  let ?t = "taken (remainingMinutes (sc ! c)) cap"
  let ?sc1 = "sc[c := (sc ! c)\<lparr>remainingMinutes := remainingMinutes (sc ! c) - ?t\<rparr>]"
  have c: "c \<notin> set cs" "distinct cs" using Cons.prems by simp_all
  show ?case
  proof (cases "c = i")
    case False
    then have "i \<in> set cs" using Cons.prems by simp
    moreover have "\<forall>c \<in> set cs. c < length ?sc1" using Cons.prems(3) by simp
    ultimately show ?thesis using Cons.IH[OF _ c(2), of ?sc1 "cap - ?t"]
      by (simp add: Let_def)
  next
    case True
    show ?thesis
    proof (cases "cap - ?t \<le> 0")
      case True
      then have "greedy u ts d cs ?sc1 (cap - ?t) = (?sc1, [], cap - ?t)"
        by (rule greedy_idle)
      with True show ?thesis by (simp add: Let_def)
    next
      case False
      then have "0 < cap" using taken_nonneg[of "remainingMinutes (sc ! c)" cap] by simp
      have r: "remainingMinutes (sc ! c) - ?t \<le> 0"
      proof (cases "0 < remainingMinutes (sc ! c)")
        case True
        from taken_exhausts[OF this \<open>0 < cap\<close>] False show ?thesis by auto
      next
        case False
        then show ?thesis by simp
      qed
      have "fst (greedy u ts d cs ?sc1 (cap - ?t)) ! c = ?sc1 ! c"
        by (rule greedy_untouched[OF c(1)])
      moreover have "remainingMinutes (?sc1 ! c) \<le> 0"
        using r Cons.prems(3) by simp
      ultimately show ?thesis using \<open>c = i\<close> by (simp add: Let_def)
    qed
  qed
qed

text \<open>The candidate that comes strictly first in the order is served first, with the
  whole capacity at its disposal.\<close>

lemma greedy_top:
  fixes key :: "nat \<Rightarrow> rat"
  assumes "sorted (map key cs)" "distinct cs" "i \<in> set cs"
    and "\<forall>h \<in> set cs. h \<noteq> i \<longrightarrow> key i < key h"
    and "i < length sc"
  shows "remainingMinutes (fst (greedy u ts d cs sc cap) ! i)
           = remainingMinutes (sc ! i) - taken (remainingMinutes (sc ! i)) cap"
proof (cases cs)
  case Nil
  with assms(3) show ?thesis by simp
next
  case (Cons c rest)
  have "c = i"
  proof (rule ccontr)
    assume "c \<noteq> i"
    with assms(3) Cons have "i \<in> set rest" by simp
    with assms(1) Cons have "key c \<le> key i" by simp
    moreover from assms(4) Cons \<open>c \<noteq> i\<close> have "key i < key c" by simp
    ultimately show False by simp
  qed
  with assms(2) Cons have "i \<notin> set rest" by simp
  from greedy_untouched[OF this] show ?thesis
    using Cons \<open>c = i\<close> assms(5) by (simp add: Let_def)
qed

lemma allocate_upto_day_rows:
  assumes "distinct dates" "n < N" "N \<le> length dates"
  shows "blocksOn (dates ! n) (snd (allocate_upto u ts caps dates sc N))
           = fst (snd (day_run u ts caps dates n (fst (allocate_upto u ts caps dates sc n))))"
  using assms(2,3)
proof (induction N)
  case 0
  then show ?case by simp
next
  case (Suc N)
  let ?new = "\<lambda>m. fst (snd (day_run u ts caps dates m (fst (allocate_upto u ts caps dates sc m))))"
  have new: "blocksOn (dates ! n) (?new N) = (if dates ! n = dates ! N then ?new N else [])"
    by (rule blocksOn_same[OF day_run_dates])
  have N: "N < length dates" "N \<le> length dates" using Suc.prems by simp_all
  have nl: "n < length dates" using Suc.prems by simp
  show ?case
  proof (cases "n = N")
    case True
    have "blocksOn (dates ! n) (snd (allocate_upto u ts caps dates sc N)) = []"
      using True assms(1) N by (intro allocate_upto_fresh) simp_all
    with new True show ?thesis by (simp add: allocate_upto_Suc)
  next
    case False
    then have "n < N" using Suc.prems by simp
    moreover have "dates ! n \<noteq> dates ! N"
      using False assms(1) N nl by (simp add: nth_eq_iff_index_eq)
    ultimately show ?thesis using Suc.IH[OF _ N(2)] new
      by (simp add: allocate_upto_Suc)
  qed
qed

lemma scoredAt_0: "scoredAt u today db 0 = scored (courseRows u db) today (assessments u today db)"
  by (simp add: scoredAt_def)

lemma length_scoredAt [simp]: "length (scoredAt u today db n) = length (assessments u today db)"
  by (simp add: scoredAt_def)

lemma scoredAt_Suc:
  "scoredAt u today db (Suc n) =
     fst (greedy u (courseTitleById (courseRows u db)) (dayDates today ! n)
            (candidatesOfDay u today db n) (scoredAt u today db n)
            (capacityByDayMinutes (availRows u db) today ! n))"
  by (simp add: scoredAt_def candidatesOfDay_def allocate_upto_Suc day_run_def)

lemma rowsOfDay_greedy:
  "n < 7 \<Longrightarrow> rowsOfDay u today db n =
     fst (snd (greedy u (courseTitleById (courseRows u db)) (dayDates today ! n)
            (candidatesOfDay u today db n) (scoredAt u today db n)
            (capacityByDayMinutes (availRows u db) today ! n)))"
  unfolding rowsOfDay_def allocation_upto scoredAt_def candidatesOfDay_def
  using allocate_upto_day_rows[of "dayDates today" n 7]
  by (simp add: distinct_dayDates day_run_def)

lemma scoredAt_idOf:
  "k < length (assessments u today db) \<Longrightarrow>
     idOf (scoredAt u today db n ! k) = as_id (assessments u today db ! k)"
  by (simp add: scoredAt_def allocate_upto_idOf)

lemma scoredAt_ids: "map idOf (scoredAt u today db n) = map as_id (assessments u today db)"
  by (simp add: scoredAt_def allocate_upto_ids)

text \<open>Throughout the run the score of an object of \<^verbatim>\<open>scored\<close> is the one computed when
  it was built, \<open>(difficulty + 1) / (daysLeft + 1)\<close>.\<close>

lemma scoredAt_score:
  "k < length (assessments u today db) \<Longrightarrow>
     score (scoredAt u today db n ! k)
       = formulaScore (scored (courseRows u db) today (assessments u today db) ! k)"
  using allocate_upto_frame[of k "scored (courseRows u db) today (assessments u today db)"]
  by (simp add: scoredAt_def formulaScore_def scored_score)

lemma scored_daysLeft:
  "k < length as \<Longrightarrow> daysLeft (scored rows today as ! k) = max 0 (as_due_date (as ! k) - today)"
  by (simp add: scored_def scoreAssessment_def Let_def)

lemma candidatesOfDay_valid:
  "\<forall>c \<in> set (candidatesOfDay u today db n). c < length (scoredAt u today db n)"
  unfolding candidatesOfDay_def by (rule candidates_valid)

lemma candidatesOfDay_iff:
  "k \<in> set (candidatesOfDay u today db n) \<longleftrightarrow>
     k < length (assessments u today db) \<and> 0 < remainingMinutes (scoredAt u today db n ! k)
     \<and> dayDates today ! n \<le> as_due_date (assessments u today db ! k)"
proof -
  have "sc_row (scoredAt u today db n ! k) = assessments u today db ! k"
    if "k < length (assessments u today db)"
    using that allocate_upto_frame[of k "scored (courseRows u db) today (assessments u today db)"]
    by (simp add: scoredAt_def)
  then show ?thesis
    by (auto simp: candidatesOfDay_def set_candidates)
qed

text \<open>
  Claim C6 (priority ordering). On any of the seven days with capacity, for two
  candidates \<open>i\<close> and \<open>j\<close> of that day of which \<open>i\<close> has the strictly higher
  \<open>(difficulty + 1) / (daysLeft + 1)\<close>, and identifiers being unique:
  the blocks of the day for each are the minutes it receives; \<open>i\<close> receives all its
  remaining work, or else the capacity of the day is handed out in full and none of it
  to \<open>j\<close>; when the capacity is at most the work of \<open>i\<close>, \<open>j\<close> receives nothing; the
  rows of \<open>i\<close> come before those of \<open>j\<close>; and when no other candidate scores as high
  as \<open>i\<close> (so when the two are the only candidates), \<open>i\<close> receives the smaller of its
  work and the capacity.
\<close>

theorem priority_ordering:
  assumes "n < 7" and "0 < capacityByDayMinutes (availRows u db) today ! n"
    and "distinct (map as_id (assessments u today db))"
    and "i \<in> set (candidatesOfDay u today db n)" and "j \<in> set (candidatesOfDay u today db n)"
    and "formulaScore (scored (courseRows u db) today (assessments u today db) ! j)
           < formulaScore (scored (courseRows u db) today (assessments u today db) ! i)"
  shows "minutesOf (blocksFor (as_id (assessments u today db ! i)) (rowsOfDay u today db n))
           = gotOnDay u today db n i
       \<and> minutesOf (blocksFor (as_id (assessments u today db ! j)) (rowsOfDay u today db n))
           = gotOnDay u today db n j
       \<and> (gotOnDay u today db n i = remainingMinutes (scoredAt u today db n ! i)
            \<or> (minutesOf (rowsOfDay u today db n) = capacityByDayMinutes (availRows u db) today ! n
                \<and> gotOnDay u today db n j = 0))
       \<and> (capacityByDayMinutes (availRows u db) today ! n
              \<le> remainingMinutes (scoredAt u today db n ! i)
            \<longrightarrow> gotOnDay u today db n j = 0)
       \<and> (\<exists>xs ys. rowsOfDay u today db n = xs @ ys
            \<and> blocksFor (as_id (assessments u today db ! j)) xs = []
            \<and> blocksFor (as_id (assessments u today db ! i)) ys = [])
       \<and> ((\<forall>h \<in> set (candidatesOfDay u today db n). h \<noteq> i \<longrightarrow>
               formulaScore (scored (courseRows u db) today (assessments u today db) ! h)
                 < formulaScore (scored (courseRows u db) today (assessments u today db) ! i))
            \<longrightarrow> gotOnDay u today db n i
                  = min (remainingMinutes (scoredAt u today db n ! i))
                        (capacityByDayMinutes (availRows u db) today ! n))"
proof -
  let ?as = "assessments u today db"
  let ?sc0 = "scored (courseRows u db) today ?as"
  let ?S = "scoredAt u today db n"
  let ?cs = "candidatesOfDay u today db n"
  let ?cap = "capacityByDayMinutes (availRows u db) today ! n"
  let ?ts = "courseTitleById (courseRows u db)"
  let ?d = "dayDates today ! n"
  let ?g = "greedy u ?ts ?d ?cs ?S ?cap"
  let ?key = "\<lambda>h. - score (?S ! h)"
  have S': "scoredAt u today db (Suc n) = fst ?g" by (rule scoredAt_Suc)
  have R: "rowsOfDay u today db n = fst (snd ?g)" by (rule rowsOfDay_greedy[OF assms(1)])
  have v: "\<forall>c \<in> set ?cs. c < length ?S" by (rule candidatesOfDay_valid)
  have il: "i < length ?as" and ir: "0 < remainingMinutes (?S ! i)"
    using assms(4) by (simp_all add: candidatesOfDay_iff)
  have jl: "j < length ?as" and jr: "0 < remainingMinutes (?S ! j)"
    using assms(5) by (simp_all add: candidatesOfDay_iff)
  have s: "sorted (map ?key ?cs)" unfolding candidatesOfDay_def by (rule sorted_candidates)
  have d: "distinct ?cs" unfolding candidatesOfDay_def by (rule distinct_candidates)
  have k: "?key i < ?key j" using assms(6) il jl by (simp add: scoredAt_score)
  have ids: "distinct (map idOf ?S)" using assms(3) by (simp add: scoredAt_ids)
  have idi: "idOf (?S ! i) = as_id (?as ! i)" by (rule scoredAt_idOf[OF il])
  have idj: "idOf (?S ! j) = as_id (?as ! j)" by (rule scoredAt_idOf[OF jl])
  have gi: "minutesOf (blocksFor (as_id (?as ! i)) (rowsOfDay u today db n)) = gotOnDay u today db n i"
    using greedy_conserve[OF ids v, of i u ?ts ?d ?cap] il
    by (simp add: gotOnDay_def S' R idi)
  have gj: "minutesOf (blocksFor (as_id (?as ! j)) (rowsOfDay u today db n)) = gotOnDay u today db n j"
    using greedy_conserve[OF ids v, of j u ?ts ?d ?cap] jl
    by (simp add: gotOnDay_def S' R idj)
  have full: "gotOnDay u today db n i = remainingMinutes (?S ! i)
            \<or> (minutesOf (rowsOfDay u today db n) = ?cap \<and> gotOnDay u today db n j = 0)"
  proof (cases "remainingMinutes (fst ?g ! i) \<le> 0")
    case True
    moreover have "0 \<le> remainingMinutes (fst ?g ! i)"
      using ir by (intro greedy_nonneg) simp
    ultimately show ?thesis by (simp add: gotOnDay_def S')
  next
    case False
    with greedy_exhausts[OF assms(4) d v, of u ?ts ?d ?cap]
    have "snd (snd ?g) \<le> 0" by simp
    moreover have "0 \<le> snd (snd ?g)"
      using assms(2) by (intro greedy_cap_nonneg) simp
    ultimately have "minutesOf (fst (snd ?g)) = ?cap"
      using greedy_cap[of u ?ts ?d ?cs ?S ?cap] by simp
    moreover have "fst ?g ! j = ?S ! j"
      using greedy_served_first[OF s d assms(4,5) k v ir, of u ?ts ?d ?cap] False by auto
    ultimately show ?thesis by (simp add: gotOnDay_def S' R)
  qed
  have tight: "?cap \<le> remainingMinutes (?S ! i) \<longrightarrow> gotOnDay u today db n j = 0"
    using greedy_starved[OF s d assms(4,5) k v, of ?cap u ?ts ?d]
    by (simp add: gotOnDay_def S')
  have order: "\<exists>xs ys. rowsOfDay u today db n = xs @ ys
            \<and> blocksFor (as_id (?as ! j)) xs = [] \<and> blocksFor (as_id (?as ! i)) ys = []"
    using greedy_order[OF s d assms(4,5) k v ids, of u ?ts ?d ?cap]
    by (simp add: R idi idj)
  have top: "(\<forall>h \<in> set ?cs. h \<noteq> i \<longrightarrow> formulaScore (?sc0 ! h) < formulaScore (?sc0 ! i))
            \<longrightarrow> gotOnDay u today db n i = min (remainingMinutes (?S ! i)) ?cap"
  proof
    assume t: "\<forall>h \<in> set ?cs. h \<noteq> i \<longrightarrow> formulaScore (?sc0 ! h) < formulaScore (?sc0 ! i)"
    have "\<forall>h \<in> set ?cs. h \<noteq> i \<longrightarrow> ?key i < ?key h"
    proof (intro ballI impI)
      fix h assume h: "h \<in> set ?cs" "h \<noteq> i"
      then have "h < length ?as" by (simp add: candidatesOfDay_iff)
      with t h il show "?key i < ?key h" by (simp add: scoredAt_score)
    qed
    from greedy_top[OF s d assms(4) this, of ?S u ?ts ?d ?cap] il
    have "remainingMinutes (fst ?g ! i)
        = remainingMinutes (?S ! i) - taken (remainingMinutes (?S ! i)) ?cap"
      by simp
    moreover have "taken (remainingMinutes (?S ! i)) ?cap = min (remainingMinutes (?S ! i)) ?cap"
      using ir assms(2) by (simp add: taken_def)
    ultimately show "gotOnDay u today db n i = min (remainingMinutes (?S ! i)) ?cap"
      by (simp add: gotOnDay_def S')
  qed
  from gi gj full tight order top show ?thesis by blast
qed

theorem priority_ordering_witness:
  "minutesOf (blocksFor (as_id (assessments ''u'' 0 (ex_two 1) ! 1)) (rowsOfDay ''u'' 0 (ex_two 1) 0))
     = gotOnDay ''u'' 0 (ex_two 1) 0 1
   \<and> gotOnDay ''u'' 0 (ex_two 1) 0 1
     = min (remainingMinutes (scoredAt ''u'' 0 (ex_two 1) 0 ! 1))
           (capacityByDayMinutes (availRows ''u'' (ex_two 1)) 0 ! 0)
   \<and> gotOnDay ''u'' 0 (ex_two 1) 0 1 = 60
   \<and> gotOnDay ''u'' 0 (ex_two 1) 0 0 = 0
   \<and> (\<exists>xs ys. rowsOfDay ''u'' 0 (ex_two 1) 0 = xs @ ys
         \<and> blocksFor (as_id (assessments ''u'' 0 (ex_two 1) ! 0)) xs = []
         \<and> blocksFor (as_id (assessments ''u'' 0 (ex_two 1) ! 1)) ys = [])"
proof -
  have n: "(0::nat) < 7" by simp
  have c: "0 < capacityByDayMinutes (availRows ''u'' (ex_two 1)) 0 ! 0"
    by code_simp
  have d: "distinct (map as_id (assessments ''u'' 0 (ex_two 1)))"
    by code_simp
  have i: "1 \<in> set (candidatesOfDay ''u'' 0 (ex_two 1) 0)"
    by code_simp
  have j: "0 \<in> set (candidatesOfDay ''u'' 0 (ex_two 1) 0)"
    by code_simp
  have s: "formulaScore (scored (courseRows ''u'' (ex_two 1)) 0 (assessments ''u'' 0 (ex_two 1)) ! 0)
      < formulaScore (scored (courseRows ''u'' (ex_two 1)) 0 (assessments ''u'' 0 (ex_two 1)) ! 1)"
    by code_simp
  have tight: "capacityByDayMinutes (availRows ''u'' (ex_two 1)) 0 ! 0
      \<le> remainingMinutes (scoredAt ''u'' 0 (ex_two 1) 0 ! 1)"
    by code_simp
  have top: "\<forall>h \<in> set (candidatesOfDay ''u'' 0 (ex_two 1) 0). h \<noteq> 1 \<longrightarrow>
      formulaScore (scored (courseRows ''u'' (ex_two 1)) 0 (assessments ''u'' 0 (ex_two 1)) ! h)
        < formulaScore (scored (courseRows ''u'' (ex_two 1)) 0 (assessments ''u'' 0 (ex_two 1)) ! 1)"
    by code_simp
  have v: "gotOnDay ''u'' 0 (ex_two 1) 0 1 = 60"
    by code_simp
  from priority_ordering[OF n c d i j s] tight top v show ?thesis by blast
qed

section \<open>Calling twice\<close>

lemma delete_delete [simp]:
  "delete_plan_items u ds (delete_plan_items u ds db) = delete_plan_items u ds db"
  by (simp add: delete_plan_items_def)

lemma delete_insert:
  "delete_plan_items u (dayDates today) (insert_plan_items (snd (allocation u today db0)) db)
     = delete_plan_items u (dayDates today) db"
  by (simp add: delete_filter insert_plan_items_def filter_out_rows)

lemma delete_upsert:
  "delete_plan_items u ds (upsert_plan_meta v s n db) = upsert_plan_meta v s n (delete_plan_items u ds db)"
  by (simp add: delete_plan_items_def upsert_plan_meta_def)

lemma insert_upsert:
  "insert_plan_items rows (upsert_plan_meta v s n db) = upsert_plan_meta v s n (insert_plan_items rows db)"
  by (simp add: insert_plan_items_def upsert_plan_meta_def)

lemma upsert_upsert [simp]:
  "upsert_plan_meta v s n (upsert_plan_meta v s' n' db) = upsert_plan_meta v s n db"
  by (simp add: upsert_plan_meta_def)

lemmas write_algebra = delete_insert delete_upsert insert_upsert

text \<open>The paths through a run.\<close>

lemma generate_branches:
  obtains (early) "fails SelectAvailability \<or> fails SelectAssessments"
    | (none) "\<not> fails SelectAvailability" "\<not> fails SelectAssessments"
        "assessments u today db = []"
    | (early2) "\<not> fails SelectAvailability" "\<not> fails SelectAssessments"
        "assessments u today db \<noteq> []" "fails SelectCourses \<or> fails DeletePlanItems"
    | (zero) "\<not> fails SelectAvailability" "\<not> fails SelectAssessments"
        "assessments u today db \<noteq> []" "\<not> fails SelectCourses" "\<not> fails DeletePlanItems"
        "snd (allocation u today db) = []"
    | (insfail) "\<not> fails SelectAvailability" "\<not> fails SelectAssessments"
        "assessments u today db \<noteq> []" "\<not> fails SelectCourses" "\<not> fails DeletePlanItems"
        "snd (allocation u today db) \<noteq> []" "fails InsertPlanItems"
    | (metafail) "\<not> fails SelectAvailability" "\<not> fails SelectAssessments"
        "assessments u today db \<noteq> []" "\<not> fails SelectCourses" "\<not> fails DeletePlanItems"
        "snd (allocation u today db) \<noteq> []" "\<not> fails InsertPlanItems" "fails UpsertPlanMeta"
    | (ok) "\<not> fails SelectAvailability" "\<not> fails SelectAssessments"
        "assessments u today db \<noteq> []" "\<not> fails SelectCourses" "\<not> fails DeletePlanItems"
        "snd (allocation u today db) \<noteq> []" "\<not> fails InsertPlanItems" "\<not> fails UpsertPlanMeta"
  by blast

text \<open>What a run returns and leaves behind on each path.\<close>

lemma generate_early:
  "fails SelectAvailability \<or> fails SelectAssessments \<Longrightarrow>
     snd (generatePlanForUser fails u today now db) = db
     \<and> (\<exists>e. fst (generatePlanForUser fails u today now db) = Inl e)"
  by (auto simp: generatePlanForUser_def)

lemma generate_none:
  "\<not> fails SelectAvailability \<Longrightarrow> \<not> fails SelectAssessments \<Longrightarrow> assessments u today db = [] \<Longrightarrow>
     generatePlanForUser fails u today now db =
       (Inr \<lparr>planRowsCount = 0, shortfallMinutes = 0,
             message = Some ''No assessments due in the next 7 days.'', warning = None\<rparr>,
        if fails UpsertPlanMeta then db else upsert_plan_meta u 0 now db)"
  by (simp add: generatePlanForUser_def)

lemma generate_early2:
  "\<not> fails SelectAvailability \<Longrightarrow> \<not> fails SelectAssessments \<Longrightarrow> assessments u today db \<noteq> [] \<Longrightarrow>
   fails SelectCourses \<or> fails DeletePlanItems \<Longrightarrow>
     snd (generatePlanForUser fails u today now db) = db
     \<and> (\<exists>e. fst (generatePlanForUser fails u today now db) = Inl e)"
  by (auto simp: generatePlanForUser_def)

lemma generate_late:
  assumes "\<not> fails SelectAvailability" "\<not> fails SelectAssessments" "assessments u today db \<noteq> []"
    "\<not> fails SelectCourses" "\<not> fails DeletePlanItems"
  shows "generatePlanForUser fails u today now db =
        (let db1 = delete_plan_items u (dayDates today) db;
             planRows = snd (allocation u today db);
             shortfall = shortfallOf (fst (allocation u today db))
         in if length planRows = 0 then
              (Inr \<lparr>planRowsCount = 0, shortfallMinutes = shortfall,
                    message = Some ''No time available in the next 7 days to schedule tasks.'',
                    warning = Some (''Overload shortfall: ''
                       @ minutesToShortfall (if shortfall = 0 then 0 else shortfall) @ ''.'')\<rparr>,
               if fails UpsertPlanMeta then db1 else upsert_plan_meta u shortfall now db1)
            else if fails InsertPlanItems then (Inl (StorageFailure InsertPlanItems), db1)
            else
              (let db2 = insert_plan_items planRows db1 in
               if fails UpsertPlanMeta then (Inl (StorageFailure UpsertPlanMeta), db2)
               else
                 (Inr \<lparr>planRowsCount = length planRows, shortfallMinutes = shortfall,
                       message = Some (''Generated '' @ String (int (length planRows))
                          @ '' blocks across the next 7 days.''),
                       warning =
                         (if shortfall > 0 then
                            Some (''Overload: you'' @ [CHR 0x27] @ ''re short by ''
                              @ minutesToShortfall shortfall @ '' within the next 7 days. ''
                              @ ''Increase availability or reduce estimated hours.'')
                          else if length planRows > 0
                                  \<and> totalCapacity (availRows u db) today = 0
                          then Some ''Overload: availability is 0 for all 7 days.''
                          else None)\<rparr>,
                  upsert_plan_meta u shortfall now db2)))"
  using assms by (simp add: generatePlanForUser_def)

lemma generate_late_snd:
  assumes "\<not> fails SelectAvailability" "\<not> fails SelectAssessments" "assessments u today db \<noteq> []"
    "\<not> fails SelectCourses" "\<not> fails DeletePlanItems"
  shows "snd (generatePlanForUser fails u today now db) =
     (if snd (allocation u today db) = [] then
        (if fails UpsertPlanMeta then delete_plan_items u (dayDates today) db
         else upsert_plan_meta u (shortfallOf (fst (allocation u today db))) now
                (delete_plan_items u (dayDates today) db))
      else if fails InsertPlanItems then delete_plan_items u (dayDates today) db
      else if fails UpsertPlanMeta then
        insert_plan_items (snd (allocation u today db)) (delete_plan_items u (dayDates today) db)
      else upsert_plan_meta u (shortfallOf (fst (allocation u today db))) now
             (insert_plan_items (snd (allocation u today db))
                (delete_plan_items u (dayDates today) db)))"
  unfolding generate_late[OF assms] by (simp add: Let_def)

lemma generate_reads:
  "assessments u today (snd (generatePlanForUser fails u today now db)) = assessments u today db
   \<and> allocation u today (snd (generatePlanForUser fails u today now db)) = allocation u today db
   \<and> availRows u (snd (generatePlanForUser fails u today now db)) = availRows u db"
proof (cases rule: generate_branches[where fails = fails and u = u and today = today and db = db])
  case early
  from generate_early[OF this] show ?thesis by simp
next
  case none
  from generate_none[OF this] show ?thesis by simp
next
  case early2
  from generate_early2[OF this] show ?thesis by simp
next
  case zero
  from generate_late_snd[OF zero(1-5)] show ?thesis by simp
next
  case insfail
  from generate_late_snd[OF insfail(1-5)] show ?thesis by simp
next
  case metafail
  from generate_late_snd[OF metafail(1-5)] show ?thesis by simp
next
  case ok
  from generate_late_snd[OF ok(1-5)] show ?thesis by simp
qed

lemma generate_result_cong:
  assumes "assessments u today db' = assessments u today db"
    "allocation u today db' = allocation u today db" "availRows u db' = availRows u db"
  shows "fst (generatePlanForUser fails u today now' db') = fst (generatePlanForUser fails u today now db)"
proof (cases rule: generate_branches[where fails = fails and u = u and today = today and db = db])
  case early
  then show ?thesis by (auto simp: generatePlanForUser_def)
next
  case none
  with assms(1) have "assessments u today db' = []" by simp
  from generate_none[OF none(1,2) this] generate_none[OF none] show ?thesis by simp
next
  case early2
  then show ?thesis using assms(1) by (auto simp: generatePlanForUser_def)
next
  case zero
  with assms(1) have "assessments u today db' \<noteq> []" by simp
  from generate_late[OF zero(1,2) this zero(4,5)] generate_late[OF zero(1-5)] assms zero(6)
  show ?thesis by (simp add: Let_def)
next
  case insfail
  with assms(1) have "assessments u today db' \<noteq> []" by simp
  from generate_late[OF insfail(1,2) this insfail(4,5)] generate_late[OF insfail(1-5)] assms insfail(6,7)
  show ?thesis by (simp add: Let_def)
next
  case metafail
  with assms(1) have "assessments u today db' \<noteq> []" by simp
  from generate_late[OF metafail(1,2) this metafail(4,5)] generate_late[OF metafail(1-5)] assms metafail(6-8)
  show ?thesis by (simp add: Let_def)
next
  case ok
  with assms(1) have "assessments u today db' \<noteq> []" by simp
  from generate_late[OF ok(1,2) this ok(4,5)] generate_late[OF ok(1-5)] assms ok(6-8)
  show ?thesis by (simp add: Let_def)
qed

lemma generate_twice_store:
  "snd (generatePlanForUser fails u today now2 (snd (generatePlanForUser fails u today now1 db)))
     = snd (generatePlanForUser fails u today now2 db)"
proof -
  let ?db1 = "snd (generatePlanForUser fails u today now1 db)"
  have r: "assessments u today ?db1 = assessments u today db"
    "allocation u today ?db1 = allocation u today db"
    using generate_reads[of u today fails now1 db] by simp_all
  show ?thesis
  proof (cases rule: generate_branches[where fails = fails and u = u and today = today and db = db])
    case early
    from generate_early[OF this] show ?thesis by simp
  next
    case none
    with r(1) have "assessments u today ?db1 = []" by simp
    from generate_none[OF none(1,2) this, where now = now2] generate_none[OF none, where now = now1]
      generate_none[OF none, where now = now2]
    show ?thesis by simp
  next
    case early2
    from generate_early2[OF this] show ?thesis by simp
  next
    case zero
    with r(1) have a: "assessments u today ?db1 \<noteq> []" by simp
    show ?thesis
      unfolding generate_late_snd[OF zero(1,2) a zero(4,5)] r
      unfolding generate_late_snd[OF zero(1-5)]
      using zero(6) by (simp add: write_algebra)
  next
    case insfail
    with r(1) have a: "assessments u today ?db1 \<noteq> []" by simp
    show ?thesis
      unfolding generate_late_snd[OF insfail(1,2) a insfail(4,5)] r
      unfolding generate_late_snd[OF insfail(1-5)]
      using insfail(6,7) by (simp add: write_algebra)
  next
    case metafail
    with r(1) have a: "assessments u today ?db1 \<noteq> []" by simp
    show ?thesis
      unfolding generate_late_snd[OF metafail(1,2) a metafail(4,5)] r
      unfolding generate_late_snd[OF metafail(1-5)]
      using metafail(6-8) by (simp add: write_algebra)
  next
    case ok
    with r(1) have a: "assessments u today ?db1 \<noteq> []" by simp
    show ?thesis
      unfolding generate_late_snd[OF ok(1,2) a ok(4,5)] r
      unfolding generate_late_snd[OF ok(1-5)]
      using ok(6-8) by (simp add: write_algebra)
  qed
qed

lemma generate_items_now:
  "tbl_plan_items (snd (generatePlanForUser fails u today now2 db))
     = tbl_plan_items (snd (generatePlanForUser fails u today now1 db))"
proof (cases rule: generate_branches[where fails = fails and u = u and today = today and db = db])
  case early
  from generate_early[OF this, where now = now1] generate_early[OF this, where now = now2] show ?thesis by simp
next
  case none
  from generate_none[OF this, where now = now1] generate_none[OF this, where now = now2] show ?thesis by simp
next
  case early2
  from generate_early2[OF this, where now = now1] generate_early2[OF this, where now = now2] show ?thesis by simp
next
  case zero
  show ?thesis unfolding generate_late_snd[OF zero(1-5)] by simp
next
  case insfail
  show ?thesis unfolding generate_late_snd[OF insfail(1-5)] by simp
next
  case metafail
  show ?thesis unfolding generate_late_snd[OF metafail(1-5)] by simp
next
  case ok
  show ?thesis unfolding generate_late_snd[OF ok(1-5)] by simp
qed

lemma meta_upsert [simp]:
  "map_option shortfall_minutes (tbl_plan_meta (upsert_plan_meta u s n db) v)
     = (if v = u then Some s else map_option shortfall_minutes (tbl_plan_meta db v))"
  by (simp add: upsert_plan_meta_def)

lemma meta_insert [simp]: "tbl_plan_meta (insert_plan_items rows db) = tbl_plan_meta db"
  by (simp add: insert_plan_items_def)

lemma meta_delete [simp]: "tbl_plan_meta (delete_plan_items u ds db) = tbl_plan_meta db"
  by (simp add: delete_plan_items_def)

lemma generate_meta_now:
  "map_option shortfall_minutes (tbl_plan_meta (snd (generatePlanForUser fails u today now2 db)) v)
     = map_option shortfall_minutes (tbl_plan_meta (snd (generatePlanForUser fails u today now1 db)) v)"
proof (cases rule: generate_branches[where fails = fails and u = u and today = today and db = db])
  case early
  from generate_early[OF this, where now = now1] generate_early[OF this, where now = now2] show ?thesis by simp
next
  case none
  from generate_none[OF this, where now = now1] generate_none[OF this, where now = now2] show ?thesis by simp
next
  case early2
  from generate_early2[OF this, where now = now1] generate_early2[OF this, where now = now2] show ?thesis by simp
next
  case zero
  show ?thesis unfolding generate_late_snd[OF zero(1-5)] by simp
next
  case insfail
  show ?thesis unfolding generate_late_snd[OF insfail(1-5)] by simp
next
  case metafail
  show ?thesis unfolding generate_late_snd[OF metafail(1-5)] by simp
next
  case ok
  show ?thesis unfolding generate_late_snd[OF ok(1-5)] by simp
qed

text \<open>
  Claim C8 (idempotence). A second call with the tables, the faults and the reference
  date unchanged returns the result of the first (so the same shortfall), computes the
  same blocks, and leaves the store as one call made at the time of the second would:
  with the blocks the first call stored and the shortfall it stored, the timestamp of
  the summary being that of the clock.
\<close>

theorem idempotence:
  "fst (generatePlanForUser fails u today now2 (snd (generatePlanForUser fails u today now1 db)))
     = fst (generatePlanForUser fails u today now1 db)
   \<and> allocation u today (snd (generatePlanForUser fails u today now1 db)) = allocation u today db
   \<and> snd (generatePlanForUser fails u today now2 (snd (generatePlanForUser fails u today now1 db)))
     = snd (generatePlanForUser fails u today now2 db)
   \<and> tbl_plan_items
       (snd (generatePlanForUser fails u today now2 (snd (generatePlanForUser fails u today now1 db))))
     = tbl_plan_items (snd (generatePlanForUser fails u today now1 db))
   \<and> map_option shortfall_minutes (tbl_plan_meta
       (snd (generatePlanForUser fails u today now2 (snd (generatePlanForUser fails u today now1 db)))) v)
     = map_option shortfall_minutes
         (tbl_plan_meta (snd (generatePlanForUser fails u today now1 db)) v)"
proof (intro conjI)
  have r: "assessments u today (snd (generatePlanForUser fails u today now1 db)) = assessments u today db"
    "allocation u today (snd (generatePlanForUser fails u today now1 db)) = allocation u today db"
    "availRows u (snd (generatePlanForUser fails u today now1 db)) = availRows u db"
    using generate_reads[of u today fails now1 db] by simp_all
  show "fst (generatePlanForUser fails u today now2 (snd (generatePlanForUser fails u today now1 db)))
     = fst (generatePlanForUser fails u today now1 db)"
    by (rule generate_result_cong[OF r])
  show "allocation u today (snd (generatePlanForUser fails u today now1 db)) = allocation u today db"
    by (rule r(2))
  show twice: "snd (generatePlanForUser fails u today now2 (snd (generatePlanForUser fails u today now1 db)))
     = snd (generatePlanForUser fails u today now2 db)"
    by (rule generate_twice_store)
  show "tbl_plan_items
       (snd (generatePlanForUser fails u today now2 (snd (generatePlanForUser fails u today now1 db))))
     = tbl_plan_items (snd (generatePlanForUser fails u today now1 db))"
    unfolding twice by (rule generate_items_now)
  show "map_option shortfall_minutes (tbl_plan_meta
       (snd (generatePlanForUser fails u today now2 (snd (generatePlanForUser fails u today now1 db)))) v)
     = map_option shortfall_minutes
         (tbl_plan_meta (snd (generatePlanForUser fails u today now1 db)) v)"
    unfolding twice by (rule generate_meta_now)
qed

text \<open>The branch taken when no block was produced: the summary is upserted (unless the
  upsert fails, which goes unnoticed), no block is reported, and the warning is built
  whatever the shortfall.\<close>

lemma zero_blocks_result:
  assumes "\<not> fails SelectAvailability" "\<not> fails SelectAssessments" "assessments u today db \<noteq> []"
    "\<not> fails SelectCourses" "\<not> fails DeletePlanItems"
    and "snd (allocation u today db) = []"
  shows "fst (generatePlanForUser fails u today now db) =
           Inr \<lparr>planRowsCount = 0,
                shortfallMinutes = shortfallOf (fst (allocation u today db)),
                message = Some ''No time available in the next 7 days to schedule tasks.'',
                warning = Some (''Overload shortfall: ''
                   @ minutesToShortfall (shortfallOf (fst (allocation u today db))) @ ''.'')\<rparr>"
    and "\<not> fails UpsertPlanMeta \<Longrightarrow>
           tbl_plan_meta (snd (generatePlanForUser fails u today now db)) u =
             Some \<lparr>shortfall_minutes = shortfallOf (fst (allocation u today db)), updated_at = now\<rparr>"
  unfolding generate_late[OF assms(1-5)] using assms(6)
  by (simp_all add: Let_def upsert_plan_meta_def)

text \<open>
  Claim C4 (result when no block is produced). The claim wants no warning when the
  shortfall is zero. For one assessment whose estimate rounds to zero minutes the run
  produces no block and has a shortfall of zero, yet the warning it returns reports an
  overload shortfall of 0 minutes.
\<close>

theorem zero_shortfall_warning:
  "fst (generatePlanForUser no_faults ''u'' 0 1 (ex_store [] [ex_assessment ''a'' 0 (1 / 200)] []))
     = Inr (ex_result 0 0 ''No time available in the next 7 days to schedule tasks.''
              (Some ''Overload shortfall: 0 minutes.''))"
  by code_simp

end
